theory Spec2Isabelle
  imports Complex_Main "HOL-Library.Sublist"
begin

section \<open>Values and strings of the page script\<close>

text \<open>
  The development follows the first (debounced, single controller) program of
  \<^verbatim>\<open>src/script.js\<close>: the classes \<^verbatim>\<open>TimelineScroll\<close> and \<^verbatim>\<open>TimelineController\<close>.

  A script value that can be \<^verbatim>\<open>undefined\<close>, \<^verbatim>\<open>null\<close> or a string (a \<^verbatim>\<open>dataset\<close> entry,
  \<^verbatim>\<open>currentSubcategory\<close>) is a \<open>jsval\<close>. Strict equality \<^verbatim>\<open>===\<close> on such values is equality
  of the datatype; \<open>truthy\<close> is the test an \<^verbatim>\<open>if (v)\<close> makes.
\<close>

datatype jsval = Undefined | Null | Str string

fun truthy :: "jsval \<Rightarrow> bool" where
  "truthy (Str s) = (s \<noteq> [])"
| "truthy Undefined = False"
| "truthy Null = False"

text \<open>
  Strings are sequences of code units below 256. On these \<^verbatim>\<open>toLowerCase\<close> works unit by
  unit: it moves A..Z and the capital letters of the Latin-1 block (0xC0..0xDE without the
  multiplication sign 0xD7) up by 32 and leaves every other unit alone.
\<close>

definition lower_unit :: "char \<Rightarrow> char" where
  "lower_unit c =
     (let n = (of_char c :: nat)
      in if (65 \<le> n \<and> n \<le> 90) \<or> (192 \<le> n \<and> n \<le> 222 \<and> n \<noteq> 215)
         then char_of (n + 32) else c)"

definition toLowerCase :: "string \<Rightarrow> string" where
  "toLowerCase s = map lower_unit s"

text \<open>\<^verbatim>\<open>s.includes(t)\<close>: does \<open>t\<close> occur in \<open>s\<close> as a contiguous run of units.\<close>

fun includes_str :: "string \<Rightarrow> string \<Rightarrow> bool" where
  "includes_str [] t = (t = [])"
| "includes_str (c # cs) t = (if prefix t (c # cs) then True else includes_str cs t)"

text \<open>\<^verbatim>\<open>array.join(' ')\<close>.\<close>

fun join :: "string list \<Rightarrow> string" where
  "join [] = []"
| "join [x] = x"
| "join (x # y # ys) = x @ '' '' @ join (y # ys)"

section \<open>The event nodes and the controller\<close>

text \<open>
  The children of a title (\<^verbatim>\<open>h3\<close>) or description (\<^verbatim>\<open>p\<close>) element: text nodes and
  \<^verbatim>\<open><span class="search-highlight">\<close> elements, the latter given by their text.
\<close>

datatype node = TextNode string | Highlight string

fun node_text :: "node \<Rightarrow> string" where
  "node_text (TextNode s) = s"
| "node_text (Highlight s) = s"

definition textContent :: "node list \<Rightarrow> string" where
  "textContent ns = concat (map node_text ns)"

text \<open>The entry \<^verbatim>\<open>preloadEventData\<close> stores for an event in the \<^verbatim>\<open>eventData\<close> map.\<close>

record event_data =
  cached_text :: string
  category :: jsval
  subcategory :: jsval

text \<open>
  An \<^verbatim>\<open>.event\<close> node: the parts of the page the script reads and the inline style it writes.
  \<open>inside\<close> lists the \<^verbatim>\<open>.timeline-section\<close> elements (by position in \<^verbatim>\<open>timelineSections\<close>) that
  contain the node. \<open>entry\<close> is the node's value in the \<^verbatim>\<open>eventData\<close> map, which is keyed by
  the node itself and filled for every node by the constructor before any listener can run.
  \<open>hide_timers\<close> counts the timeouts of \<^verbatim>\<open>hideEvent\<close> that are still pending for the node.
\<close>

record event =
  h3 :: "node list"
  para :: "node list"
  event_year :: string
  category_tags :: "string list"
  subcategory_tags :: "string list"
  dataset_category :: jsval
  dataset_subcategory :: jsval
  display :: string
  opacity :: string
  transform :: string
  inside :: "nat list"
  entry :: event_data
  hide_timers :: nat

text \<open>\<^verbatim>\<open>preloadEventData\<close>, lines 144-159: the entry computed for one node, and the loop.\<close>

definition preload_entry :: "event \<Rightarrow> event_data" where
  "preload_entry e =
     (let title = textContent (h3 e);
          description = textContent (para e);
          year = event_year e;
          categoryTags = join (category_tags e);
          subcategoryTags = join (subcategory_tags e)
      in \<lparr> cached_text = toLowerCase
              (title @ '' '' @ description @ '' '' @ year @ '' '' @ categoryTags @ '' '' @ subcategoryTags),
           category = dataset_category e,
           subcategory = dataset_subcategory e \<rparr>)"

definition preloadEventData :: "event list \<Rightarrow> event list" where
  "preloadEventData es = map (\<lambda>e. e\<lparr>entry := preload_entry e\<rparr>) es"

text \<open>
  The filter and subcategory buttons, in document order, and the subcategory pickers
  (\<^verbatim>\<open>.subcategory-buttons\<close> containers with id \<^verbatim>\<open><category>-subcategories\<close>): a picker is
  its category code and whether it carries the class \<^verbatim>\<open>show\<close>. A subcategory button names the
  category of the picker it sits in.
\<close>

datatype button_kind = FilterBtn | SubcategoryBtn string

record button =
  kind :: button_kind
  data_filter :: jsval
  active :: bool

record controller =
  events :: "event list"
  timelineSections :: "string list"
  buttons :: "button list"
  pickers :: "(string \<times> bool) list"
  searchInput_value :: string
  currentFilter :: string
  currentSubcategory :: jsval
  currentSearchTerm :: string
  searchTimeout_pending :: bool
  filterTimeout_pending :: bool
  frames_pending :: nat
  section_timers :: nat

section \<open>The two match predicates\<close>

text \<open>\<^verbatim>\<open>matchesSearch\<close>, lines 297-302.\<close>

definition matchesSearch :: "controller \<Rightarrow> event \<Rightarrow> bool" where
  "matchesSearch this e =
     (if currentSearchTerm this = [] then True
      else let eventData = entry e
           in includes_str (cached_text eventData) (toLowerCase (currentSearchTerm this)))"

text \<open>\<^verbatim>\<open>matchesFilter\<close>, lines 304-316.\<close>

definition matchesFilter :: "controller \<Rightarrow> event \<Rightarrow> bool" where
  "matchesFilter this e =
     (if currentFilter this = ''all'' then True
      else let eventData = entry e
           in if category eventData \<noteq> Str (currentFilter this) then False
              else if truthy (currentSubcategory this)
                   then subcategory eventData = currentSubcategory this
                   else True)"

section \<open>Highlighting\<close>

text \<open>
  What a step of the script can come to. \<open>Completed\<close> carries the state after the step.
  \<open>Thrown\<close> is an uncaught exception, with the state as the step left it: what was written
  before the \<^verbatim>\<open>throw\<close> stays written. \<open>Unmodelled\<close> marks an input on which the step depends on
  parts of the browser this development does not describe (pattern syntax other than
  parentheses, markup other than the highlight span and three character references, a
  selector string with a quote or backslash in it); nothing is claimed about such inputs.
\<close>

datatype js_error = SyntaxError | TypeError

datatype 'a run = Completed 'a | Thrown js_error 'a | Unmodelled

subsection \<open>The pattern\<close>

text \<open>
  \<^verbatim>\<open>new RegExp(source, 'gi')\<close> on a source built of ordinary units and parentheses only. The
  units \<^verbatim>\<open>^ $ \ . * + ? ( ) [ ] { } |\<close> are the syntax characters of a pattern. Without any
  other syntax character a source is a pattern exactly when its parentheses are balanced,
  and the constructor throws a \<^verbatim>\<open>SyntaxError\<close> when they are not. A source \<^verbatim>\<open>(t)\<close> with \<open>t\<close> free
  of syntax characters is one group that matches \<open>t\<close> literally, letter case ignored.
\<close>

definition other_syntax_unit :: "char \<Rightarrow> bool" where
  "other_syntax_unit c = (c \<in> set (CHR 0x5C # ''^$.*+?[]{}|''))"

definition paren_unit :: "char \<Rightarrow> bool" where
  "paren_unit c = (c = CHR ''('' \<or> c = CHR '')'')"

fun paren_depth :: "nat \<Rightarrow> string \<Rightarrow> nat option" where
  "paren_depth d [] = Some d"
| "paren_depth d (c # cs) =
     (if c = CHR ''('' then paren_depth (Suc d) cs
      else if c = CHR '')'' then (case d of 0 \<Rightarrow> None | Suc d' \<Rightarrow> paren_depth d' cs)
      else paren_depth d cs)"

datatype regexp_result = Regex string | RegexThrows | RegexUnmodelled

definition RegExp_gi :: "string \<Rightarrow> regexp_result" where
  "RegExp_gi source =
     (if list_ex other_syntax_unit source then RegexUnmodelled
      else if paren_depth 0 source \<noteq> Some 0 then RegexThrows
      else case source of
             [] \<Rightarrow> RegexUnmodelled
           | c # rest \<Rightarrow>
               if c = CHR ''('' \<and> rest \<noteq> [] \<and> last rest = CHR '')'' \<and> \<not> list_ex paren_unit (butlast rest)
               then Regex (butlast rest) else RegexUnmodelled)"

subsection \<open>The replacement\<close>

definition span_open :: string where
  \<open>span_open = ''<span class="search-highlight">''\<close>

definition span_close :: string where
  "span_close = ''</span>''"

text \<open>Does the literal \<open>t\<close> match at the start of \<open>s\<close>, letter case ignored.\<close>

definition matches_at :: "string \<Rightarrow> string \<Rightarrow> bool" where
  "matches_at t s = (length t \<le> length s \<and> toLowerCase (take (length t) s) = toLowerCase t)"

text \<open>
  \<^verbatim>\<open>text.replace(regex, '<span class="search-highlight">$1</span>')\<close> for the global pattern
  \<^verbatim>\<open>(t)\<close>: every match, found from left to right without overlap, is wrapped; \<^verbatim>\<open>$1\<close> is the text
  matched. An empty \<open>t\<close> matches the empty string at every position.
\<close>

function replace_gi :: "string \<Rightarrow> string \<Rightarrow> string" where
  "replace_gi t s =
     (if matches_at t s then
        (case s of
           [] \<Rightarrow> span_open @ span_close
         | c # cs \<Rightarrow>
             if t = [] then span_open @ span_close @ c # replace_gi t cs
             else span_open @ take (length t) s @ span_close @ replace_gi t (drop (length t) s))
      else (case s of [] \<Rightarrow> [] | c # cs \<Rightarrow> c # replace_gi t cs))"
  by pat_completeness auto
termination
  by (relation "measure (\<lambda>(t, s). length s)") auto

subsection \<open>Assigning \<^verbatim>\<open>innerHTML\<close>\<close>

text \<open>
  The fragment parser on the markup the script writes. A unit other than \<^verbatim>\<open><\<close>, \<^verbatim>\<open>&\<close>, carriage
  return and NUL is a character of the text. \<^verbatim>\<open>&lt;\<close>, \<^verbatim>\<open>&gt;\<close> and \<^verbatim>\<open>&amp;\<close> are the characters they
  name. The highlight span with a body of text characters is an element. Consecutive
  characters make one text node. On any other input the result is \<open>None\<close>.
\<close>

definition plain_unit :: "char \<Rightarrow> bool" where
  "plain_unit c = (c \<notin> set [CHR ''<'', CHR ''&'', CHR 0x0D, CHR 0x00])"

datatype token = Unit char | Span string

function tokenize :: "string \<Rightarrow> token list option" where
  "tokenize [] = Some []"
| "tokenize (c # cs) =
     (if plain_unit c then map_option (Cons (Unit c)) (tokenize cs)
      else if prefix span_open (c # cs) then
        (let rest = drop (length span_open) (c # cs);
             body = takeWhile plain_unit rest;
             after = dropWhile plain_unit rest
         in if prefix span_close after
            then map_option (Cons (Span body)) (tokenize (drop (length span_close) after))
            else None)
      else if prefix ''&lt;'' (c # cs) then map_option (Cons (Unit CHR ''<'')) (tokenize (drop 4 (c # cs)))
      else if prefix ''&gt;'' (c # cs) then map_option (Cons (Unit CHR ''>'')) (tokenize (drop 4 (c # cs)))
      else if prefix ''&amp;'' (c # cs) then map_option (Cons (Unit CHR ''&'')) (tokenize (drop 5 (c # cs)))
      else None)"
  by pat_completeness auto
termination
proof (relation "measure length")
  fix c :: char and cs rest body after
  assume "rest = drop (length span_open) (c # cs)" and "after = dropWhile plain_unit rest"
  then have "length after \<le> length (c # cs)"
    by (simp add: length_dropWhile_le le_diff_conv trans_le_add1 order_trans [OF length_dropWhile_le])
  then show "(drop (length span_close) after, c # cs) \<in> measure length"
    by (simp add: span_close_def)
qed auto

text \<open>The text a token stands for, and whether it is the highlight span.\<close>

fun token_text :: "token \<Rightarrow> string" where
  "token_text (Unit c) = [c]"
| "token_text (Span b) = b"

fun is_span :: "token \<Rightarrow> bool" where
  "is_span (Span b) = True"
| "is_span (Unit c) = False"

definition flush :: "string \<Rightarrow> node list" where
  "flush acc = (if acc = [] then [] else [TextNode acc])"

fun build :: "string \<Rightarrow> token list \<Rightarrow> node list" where
  "build acc [] = flush acc"
| "build acc (Unit c # ts) = build (acc @ [c]) ts"
| "build acc (Span b # ts) = flush acc @ Highlight b # build [] ts"

definition innerHTML_set :: "string \<Rightarrow> node list option" where
  "innerHTML_set html = map_option (build []) (tokenize html)"

text \<open>\<^verbatim>\<open>highlightText\<close>, lines 330-335, on the children of the element.\<close>

definition highlightText :: "node list \<Rightarrow> string \<Rightarrow> node list run" where
  "highlightText element searchTerm =
     (let text = textContent element
      in case RegExp_gi (''('' @ searchTerm @ '')'') of
           RegexThrows \<Rightarrow> Thrown SyntaxError element
         | RegexUnmodelled \<Rightarrow> Unmodelled
         | Regex t \<Rightarrow>
             (let highlightedText = replace_gi t text
              in case innerHTML_set highlightedText of
                   None \<Rightarrow> Unmodelled
                 | Some children \<Rightarrow> Completed children))"

subsection \<open>Removing highlights\<close>

text \<open>\<^verbatim>\<open>parent.normalize()\<close>: adjacent text nodes are joined and empty ones removed.\<close>

fun merge_text :: "string \<Rightarrow> node list \<Rightarrow> node list" where
  "merge_text acc [] = flush acc"
| "merge_text acc (TextNode s # ns) = merge_text (acc @ s) ns"
| "merge_text acc (Highlight h # ns) = flush acc @ Highlight h # merge_text [] ns"

definition normalize_children :: "node list \<Rightarrow> node list" where
  "normalize_children ns = merge_text [] ns"

text \<open>
  \<^verbatim>\<open>parent.replaceChild(document.createTextNode(highlight.textContent), highlight)\<close> for the
  first highlight span still among the children.
\<close>

fun replaceChild_first :: "node list \<Rightarrow> node list" where
  "replaceChild_first [] = []"
| "replaceChild_first (Highlight h # ns) = TextNode h # ns"
| "replaceChild_first (TextNode s # ns) = TextNode s # replaceChild_first ns"

fun is_highlight :: "node \<Rightarrow> bool" where
  "is_highlight (Highlight h) = True"
| "is_highlight (TextNode s) = False"

text \<open>
  \<^verbatim>\<open>removeHighlights\<close>, lines 337-344. The list \<^verbatim>\<open>highlights\<close> is taken once, in document order;
  each of its spans is replaced and its parent normalized in turn, so one round is run for
  every span the parent held at the start.
\<close>

definition strip_highlights :: "node list \<Rightarrow> node list" where
  "strip_highlights ns =
     ((\<lambda>children. normalize_children (replaceChild_first children)) ^^ length (filter is_highlight ns)) ns"

definition removeHighlights :: "event \<Rightarrow> event" where
  "removeHighlights e = e\<lparr>h3 := strip_highlights (h3 e), para := strip_highlights (para e)\<rparr>"

text \<open>\<^verbatim>\<open>highlightSearchTerm\<close>, lines 318-328.\<close>

definition highlightSearchTerm :: "event \<Rightarrow> string \<Rightarrow> event run" where
  "highlightSearchTerm event searchTerm =
     (let e1 = removeHighlights event
      in case highlightText (h3 e1) searchTerm of
           Thrown err title \<Rightarrow> Thrown err e1
         | Unmodelled \<Rightarrow> Unmodelled
         | Completed title \<Rightarrow>
             (case highlightText (para e1) searchTerm of
                Thrown err description \<Rightarrow> Thrown err (e1\<lparr>h3 := title\<rparr>)
              | Unmodelled \<Rightarrow> Unmodelled
              | Completed description \<Rightarrow> Completed (e1\<lparr>h3 := title, para := description\<rparr>)))"

section \<open>The recomputation pass\<close>

text \<open>\<^verbatim>\<open>showEvent\<close>, lines 281-285.\<close>

definition showEvent :: "event \<Rightarrow> event" where
  "showEvent e = e\<lparr>display := ''flex'', opacity := ''1'', transform := ''translateY(0)''\<rparr>"

text \<open>
  \<^verbatim>\<open>hideEvent\<close>, lines 287-295: the fade, and one more timeout pending for the node.
  \<open>hide_timeout\<close> is what the timeout does when it fires 300ms later.
\<close>

definition hideEvent :: "event \<Rightarrow> event" where
  "hideEvent e =
     e\<lparr>opacity := ''0'', transform := ''translateY(-10px)'', hide_timers := Suc (hide_timers e)\<rparr>"

definition hide_timeout :: "event \<Rightarrow> event" where
  "hide_timeout e = (if opacity e = ''0'' then e\<lparr>display := ''none''\<rparr> else e)"

text \<open>The body of the loop over \<^verbatim>\<open>this.events\<close>, lines 260-274, for one node.\<close>

definition filter_event :: "controller \<Rightarrow> event \<Rightarrow> event run" where
  "filter_event this event =
     (let matchesSearch = matchesSearch this event;
          matchesFilter = matchesFilter this event
      in if matchesSearch \<and> matchesFilter then
           (let shown = showEvent event
            in if currentSearchTerm this \<noteq> []
               then highlightSearchTerm shown (currentSearchTerm this)
               else Completed (removeHighlights shown))
         else Completed (hideEvent event))"

text \<open>
  \<^verbatim>\<open>this.events.forEach\<close>: the nodes in order. An exception ends the loop; the nodes after the
  one that threw are left as they were.
\<close>

fun forEach_event :: "controller \<Rightarrow> event list \<Rightarrow> event list run" where
  "forEach_event this [] = Completed []"
| "forEach_event this (e # es) =
     (case filter_event this e of
        Thrown err e' \<Rightarrow> Thrown err (e' # es)
      | Unmodelled \<Rightarrow> Unmodelled
      | Completed e' \<Rightarrow>
          (case forEach_event this es of
             Thrown err es' \<Rightarrow> Thrown err (e' # es')
           | Unmodelled \<Rightarrow> Unmodelled
           | Completed es' \<Rightarrow> Completed (e' # es')))"

text \<open>
  \<^verbatim>\<open>applyAllFilters\<close>, lines 257-279, asks for an animation frame; \<open>applyAllFilters_frame\<close> is
  the callback that runs in the frame. Its last statement starts the 200ms timeout of
  \<^verbatim>\<open>updateSectionVisibility\<close>, which an exception in the loop never reaches.
\<close>

definition applyAllFilters :: "controller \<Rightarrow> controller" where
  "applyAllFilters this = this\<lparr>frames_pending := Suc (frames_pending this)\<rparr>"

definition applyAllFilters_frame :: "controller \<Rightarrow> controller run" where
  "applyAllFilters_frame this =
     (case forEach_event this (events this) of
        Thrown err es \<Rightarrow> Thrown err (this\<lparr>events := es, frames_pending := frames_pending this - 1\<rparr>)
      | Unmodelled \<Rightarrow> Unmodelled
      | Completed es \<Rightarrow>
          Completed (this\<lparr>events := es, frames_pending := frames_pending this - 1,
                         section_timers := Suc (section_timers this)\<rparr>))"

text \<open>\<^verbatim>\<open>updateSectionVisibility\<close>, lines 374-387.\<close>

definition visibleEvents :: "controller \<Rightarrow> nat \<Rightarrow> event list" where
  "visibleEvents this section =
     filter (\<lambda>event. display event \<noteq> ''none'' \<and> opacity event \<noteq> ''0'')
       (filter (\<lambda>event. section \<in> set (inside event)) (events this))"

definition updateSectionVisibility :: "controller \<Rightarrow> controller" where
  "updateSectionVisibility this =
     this\<lparr>timelineSections :=
       map (\<lambda>section. if length (visibleEvents this section) = 0 then ''none'' else ''block'')
         [0 ..< length (timelineSections this)]\<rparr>"

text \<open>
  The timeouts a pass leaves behind, fired with nothing else in between: the section
  update after 200ms (only if one is pending), then the hide timeouts after 300ms.
\<close>

definition section_timeouts :: "controller \<Rightarrow> controller" where
  "section_timeouts this =
     (if section_timers this = 0 then this
      else (updateSectionVisibility this)\<lparr>section_timers := 0\<rparr>)"

definition fire_hide_timers :: "event \<Rightarrow> event" where
  "fire_hide_timers e = ((hide_timeout ^^ hide_timers e) e)\<lparr>hide_timers := 0\<rparr>"

definition hide_timeouts :: "controller \<Rightarrow> controller" where
  "hide_timeouts this = this\<lparr>events := map fire_hide_timers (events this)\<rparr>"

definition settle :: "controller \<Rightarrow> controller" where
  "settle this = hide_timeouts (section_timeouts this)"

text \<open>The state a run ends in, exception or not; \<open>None\<close> when the run is not modelled.\<close>

fun outcome :: "'a run \<Rightarrow> 'a option" where
  "outcome (Completed s) = Some s"
| "outcome (Thrown err s) = Some s"
| "outcome Unmodelled = None"

section \<open>The controls\<close>

text \<open>\<^verbatim>\<open>hideAllSubcategories\<close>, lines 368-372.\<close>

definition hideAllSubcategories :: "controller \<Rightarrow> controller" where
  "hideAllSubcategories this = this\<lparr>pickers := map (\<lambda>(c, s). (c, False)) (pickers this)\<rparr>"

text \<open>
  \<^verbatim>\<open>document.getElementById(`${filter}-subcategories`)\<close> finds the first picker of the category;
  \<open>add_show\<close> is \<^verbatim>\<open>classList.add('show')\<close> on it.
\<close>

definition getElementById :: "controller \<Rightarrow> string \<Rightarrow> (string \<times> bool) option" where
  "getElementById this c = find (\<lambda>p. fst p = c) (pickers this)"

fun add_show :: "string \<Rightarrow> (string \<times> bool) list \<Rightarrow> (string \<times> bool) list" where
  "add_show c [] = []"
| "add_show c (p # ps) = (if fst p = c then (fst p, True) # ps else p # add_show c ps)"

text \<open>
  \<^verbatim>\<open>document.querySelector('[data-filter="v"]')\<close> finds the first button, of either kind, whose
  \<^verbatim>\<open>data-filter\<close> is \<open>v\<close>; \<open>add_active\<close> is \<^verbatim>\<open>classList.add('active')\<close> on it.
\<close>

definition querySelector_data_filter :: "controller \<Rightarrow> string \<Rightarrow> button option" where
  "querySelector_data_filter this v = find (\<lambda>b. data_filter b = Str v) (buttons this)"

fun add_active :: "string \<Rightarrow> button list \<Rightarrow> button list" where
  "add_active v [] = []"
| "add_active v (b # bs) =
     (if data_filter b = Str v then b\<lparr>active := True\<rparr> # bs else b # add_active v bs)"

definition remove_active :: "(button \<Rightarrow> bool) \<Rightarrow> button list \<Rightarrow> button list" where
  "remove_active which bs = map (\<lambda>b. if which b then b\<lparr>active := False\<rparr> else b) bs"

definition is_filter_btn :: "button \<Rightarrow> bool" where
  "is_filter_btn b = (kind b = FilterBtn)"

definition is_subcategory_btn :: "button \<Rightarrow> bool" where
  "is_subcategory_btn b = (kind b \<noteq> FilterBtn)"

text \<open>\<^verbatim>\<open>updateFilterButtons\<close>, lines 346-352.\<close>

definition updateFilterButtons :: "controller \<Rightarrow> controller" where
  "updateFilterButtons this =
     (let cleared = this\<lparr>buttons := remove_active is_filter_btn (buttons this)\<rparr>
      in case querySelector_data_filter cleared (currentFilter this) of
           None \<Rightarrow> cleared
         | Some activeButton \<Rightarrow> cleared\<lparr>buttons := add_active (currentFilter this) (buttons cleared)\<rparr>)"

text \<open>
  \<^verbatim>\<open>updateSubcategoryButtons\<close>, lines 354-360. The value is put into the selector as a
  string; a value with a quote, a backslash or a line break in it changes the selector
  itself and is not modelled.
\<close>

fun to_string :: "jsval \<Rightarrow> string" where
  "to_string Undefined = ''undefined''"
| "to_string Null = ''null''"
| "to_string (Str s) = s"

definition selector_unsafe :: "char \<Rightarrow> bool" where
  "selector_unsafe c = (c \<in> set [CHR 0x22, CHR 0x5C, CHR 0x0A, CHR 0x0C, CHR 0x0D])"

definition updateSubcategoryButtons :: "controller \<Rightarrow> controller run" where
  "updateSubcategoryButtons this =
     (let cleared = this\<lparr>buttons := remove_active is_subcategory_btn (buttons this)\<rparr>;
          v = to_string (currentSubcategory this)
      in if list_ex selector_unsafe v then Unmodelled
         else case querySelector_data_filter cleared v of
                None \<Rightarrow> Completed cleared
              | Some activeSubButton \<Rightarrow> Completed (cleared\<lparr>buttons := add_active v (buttons cleared)\<rparr>))"

text \<open>\<^verbatim>\<open>resetAllButtons\<close>, lines 362-366; without a button for \<^verbatim>\<open>all\<close> line 365 reads \<^verbatim>\<open>classList\<close> of \<^verbatim>\<open>null\<close>.\<close>

definition resetAllButtons :: "controller \<Rightarrow> controller run" where
  "resetAllButtons this =
     (let cleared = this\<lparr>buttons := remove_active is_subcategory_btn (remove_active is_filter_btn (buttons this))\<rparr>
      in case querySelector_data_filter cleared ''all'' of
           None \<Rightarrow> Thrown TypeError cleared
         | Some allButton \<Rightarrow> Completed (cleared\<lparr>buttons := add_active ''all'' (buttons cleared)\<rparr>))"

text \<open>The debounced calls of lines 116-117: the timeout is started, or started again.\<close>

definition debouncedSearch :: "controller \<Rightarrow> controller" where
  "debouncedSearch this = this\<lparr>searchTimeout_pending := True\<rparr>"

definition debouncedFilter :: "controller \<Rightarrow> controller" where
  "debouncedFilter this = this\<lparr>filterTimeout_pending := True\<rparr>"

definition performSearch :: "controller \<Rightarrow> controller" where
  "performSearch this = applyAllFilters this"

text \<open>The debounce timeouts firing: the debounced function is called.\<close>

definition searchTimeout_fire :: "controller \<Rightarrow> controller" where
  "searchTimeout_fire this = performSearch (this\<lparr>searchTimeout_pending := False\<rparr>)"

definition filterTimeout_fire :: "controller \<Rightarrow> controller" where
  "filterTimeout_fire this = applyAllFilters (this\<lparr>filterTimeout_pending := False\<rparr>)"

text \<open>The listeners of \<^verbatim>\<open>setupSearchListeners\<close>, lines 161-192.\<close>

definition searchInput_input :: "controller \<Rightarrow> string \<Rightarrow> controller" where
  "searchInput_input this v =
     debouncedSearch (this\<lparr>searchInput_value := v, currentSearchTerm := v\<rparr>)"

definition searchInput_enter :: "controller \<Rightarrow> controller" where
  "searchInput_enter this = performSearch (this\<lparr>currentSearchTerm := searchInput_value this\<rparr>)"

definition searchButton_click :: "controller \<Rightarrow> controller" where
  "searchButton_click this = performSearch (this\<lparr>currentSearchTerm := searchInput_value this\<rparr>)"

definition clearButton_click :: "controller \<Rightarrow> controller run" where
  "clearButton_click this =
     (case resetAllButtons (this\<lparr>currentSearchTerm := [], searchInput_value := [],
                                 currentFilter := ''all'', currentSubcategory := Null\<rparr>) of
        Thrown err s \<Rightarrow> Thrown err s
      | Unmodelled \<Rightarrow> Unmodelled
      | Completed s \<Rightarrow> Completed (applyAllFilters s))"

text \<open>
  The click listener of a filter button, lines 196-231; \<open>filter_code\<close> is \<^verbatim>\<open>e.target.dataset.filter\<close>.
  In the branch for a second click on the active filter, line 207 reads \<^verbatim>\<open>classList\<close> of the
  picker without the test for \<^verbatim>\<open>null\<close> that line 224 makes.
\<close>

definition filterButton_click :: "controller \<Rightarrow> jsval \<Rightarrow> controller run" where
  "filterButton_click this filter_code =
     (if filter_code = Str ''all'' then
        Completed (debouncedFilter (updateFilterButtons (hideAllSubcategories
          (this\<lparr>currentFilter := ''all'', currentSubcategory := Null\<rparr>))))
      else if filter_code = Str ''founder'' \<or> filter_code = Str ''regulation'' then
        (if Str (currentFilter this) = filter_code then
           (case getElementById this (currentFilter this) of
              None \<Rightarrow> Thrown TypeError this
            | Some subcategoryContainer \<Rightarrow>
                if snd subcategoryContainer then
                  (case updateSubcategoryButtons (hideAllSubcategories (this\<lparr>currentSubcategory := Null\<rparr>)) of
                     Thrown err s \<Rightarrow> Thrown err s
                   | Unmodelled \<Rightarrow> Unmodelled
                   | Completed s \<Rightarrow> Completed (debouncedFilter s))
                else Completed (debouncedFilter
                       (this\<lparr>pickers := add_show (currentFilter this) (pickers this)\<rparr>)))
         else
           (let s1 = hideAllSubcategories (this\<lparr>currentFilter := to_string filter_code, currentSubcategory := Null\<rparr>);
                s2 = s1\<lparr>pickers := add_show (to_string filter_code) (pickers s1)\<rparr>
            in Completed (debouncedFilter (updateFilterButtons s2))))
      else Completed (debouncedFilter (updateFilterButtons this)))"

text \<open>The click listener of a subcategory button, lines 237-241.\<close>

definition subcategoryButton_click :: "controller \<Rightarrow> jsval \<Rightarrow> controller run" where
  "subcategoryButton_click this filter_code =
     (case updateSubcategoryButtons (this\<lparr>currentSubcategory := filter_code\<rparr>) of
        Thrown err s \<Rightarrow> Thrown err s
      | Unmodelled \<Rightarrow> Unmodelled
      | Completed s \<Rightarrow> Completed (debouncedFilter s))"

text \<open>
  The click listener of the document, lines 246-250, for a click whose target is neither
  inside \<^verbatim>\<open>.filter-group\<close> nor inside \<^verbatim>\<open>.search-container\<close>.
\<close>

definition document_click_outside :: "controller \<Rightarrow> controller" where
  "document_click_outside this = hideAllSubcategories this"

text \<open>The state the constructor leaves, lines 100-128, for the nodes of a page.\<close>

definition TimelineController ::
  "event list \<Rightarrow> string list \<Rightarrow> button list \<Rightarrow> (string \<times> bool) list \<Rightarrow> controller" where
  "TimelineController page_events page_sections page_buttons page_pickers =
     \<lparr> events = preloadEventData page_events,
       timelineSections = page_sections,
       buttons = page_buttons,
       pickers = page_pickers,
       searchInput_value = [],
       currentFilter = ''all'',
       currentSubcategory = Null,
       currentSearchTerm = [],
       searchTimeout_pending = False,
       filterTimeout_pending = False,
       frames_pending = 0,
       section_timers = 0 \<rparr>"

section \<open>Scroll progress\<close>

text \<open>
  A number of the script is \<^verbatim>\<open>NaN\<close>, an infinity or a finite value; finite values are taken
  as exact reals (the rounding of doubles is left out). \<open>divide\<close> is \<^verbatim>\<open>a / b\<close> for finite
  operands, where a zero divisor is the positive zero that subtracting equal integers gives.
\<close>

datatype jsnum = NaN | Finite real | PosInfinity | NegInfinity

definition divide_js :: "real \<Rightarrow> real \<Rightarrow> jsnum" where
  "divide_js a b =
     (if b \<noteq> 0 then Finite (a / b)
      else if a = 0 then NaN
      else if 0 < a then PosInfinity else NegInfinity)"

fun times_100 :: "jsnum \<Rightarrow> jsnum" where
  "times_100 NaN = NaN"
| "times_100 (Finite x) = Finite (x * 100)"
| "times_100 PosInfinity = PosInfinity"
| "times_100 NegInfinity = NegInfinity"

text \<open>\<^verbatim>\<open>Math.max(0, v)\<close> and \<^verbatim>\<open>Math.min(100, v)\<close>: \<^verbatim>\<open>NaN\<close> if an argument is \<^verbatim>\<open>NaN\<close>.\<close>

fun Math_max_0 :: "jsnum \<Rightarrow> jsnum" where
  "Math_max_0 NaN = NaN"
| "Math_max_0 (Finite x) = Finite (max 0 x)"
| "Math_max_0 PosInfinity = PosInfinity"
| "Math_max_0 NegInfinity = Finite 0"

fun Math_min_100 :: "jsnum \<Rightarrow> jsnum" where
  "Math_min_100 NaN = NaN"
| "Math_min_100 (Finite x) = Finite (min 100 x)"
| "Math_min_100 PosInfinity = Finite 100"
| "Math_min_100 NegInfinity = NegInfinity"

text \<open>
  The window as \<^verbatim>\<open>updateProgress\<close> sees it, and the state of \<^verbatim>\<open>TimelineScroll\<close>. \<open>width_percent\<close>
  is the number in the last \<^verbatim>\<open>scrollPercent + '%'\<close> assigned to the width of the progress bar.
\<close>

record scroller =
  pageYOffset :: real
  scrollHeight :: int
  innerHeight :: int
  isScrolling :: bool
  ticking :: bool
  width_percent :: "jsnum option"

text \<open>\<^verbatim>\<open>updateProgress\<close>, lines 20-29.\<close>

definition scrollPercent :: "scroller \<Rightarrow> jsnum" where
  "scrollPercent this =
     (let scrollTop = pageYOffset this;
          docHeight = real_of_int (scrollHeight this - innerHeight this)
      in Math_min_100 (Math_max_0 (times_100 (divide_js scrollTop docHeight))))"

definition updateProgress :: "scroller \<Rightarrow> scroller" where
  "updateProgress this =
     (if \<not> isScrolling this then this
      else this\<lparr>width_percent := Some (scrollPercent this), ticking := False\<rparr>)"

section \<open>Sequences of user actions\<close>

text \<open>Running one step after another; an exception ends the sequence.\<close>

fun and_then :: "'a run \<Rightarrow> ('a \<Rightarrow> 'a run) \<Rightarrow> 'a run" where
  "and_then (Completed s) f = f s"
| "and_then (Thrown err s) f = Thrown err s"
| "and_then Unmodelled f = Unmodelled"

text \<open>
  What a user can do to the controls. A subcategory button (given by its position among
  the buttons) can be clicked only while the picker it sits in carries \<^verbatim>\<open>show\<close>; the other
  controls are always there. \<open>act\<close> gives the state after the listener has run, \<open>None\<close> when
  the action is not possible or not modelled. The buttons and the search controls are
  taken to lie inside \<^verbatim>\<open>.filter-group\<close> and \<^verbatim>\<open>.search-container\<close>, so that the listener of the
  document does nothing for a click on them; \<open>ClickOutside\<close> is a click anywhere else.
\<close>

datatype action =
    ClickFilter jsval
  | ClickSubcategory nat
  | TypeSearch string
  | PressEnter
  | ClickSearch
  | ClickClear
  | ClickOutside

definition exposed :: "controller \<Rightarrow> button \<Rightarrow> bool" where
  "exposed this b =
     (case kind b of
        FilterBtn \<Rightarrow> False
      | SubcategoryBtn owner \<Rightarrow> (owner, True) \<in> set (pickers this))"

fun act :: "controller \<Rightarrow> action \<Rightarrow> controller option" where
  "act this (ClickFilter v) = outcome (filterButton_click this v)"
| "act this (ClickSubcategory i) =
     (if i < length (buttons this) \<and> exposed this (buttons this ! i)
      then outcome (subcategoryButton_click this (data_filter (buttons this ! i)))
      else None)"
| "act this (TypeSearch v) = Some (searchInput_input this v)"
| "act this PressEnter = Some (searchInput_enter this)"
| "act this ClickSearch = Some (searchButton_click this)"
| "act this ClickClear = outcome (clearButton_click this)"
| "act this ClickOutside = Some (document_click_outside this)"

fun run_actions :: "controller \<Rightarrow> action list \<Rightarrow> controller option" where
  "run_actions this [] = Some this"
| "run_actions this (a # as) =
     (case act this a of None \<Rightarrow> None | Some s \<Rightarrow> run_actions s as)"

text \<open>
  The two properties of the filter state that the listeners other than the clear button
  keep: a picker that carries \<^verbatim>\<open>show\<close> is the picker of the active category, and an active
  subcategory other than \<^verbatim>\<open>null\<close> is the code of a button in the picker of the active category.
\<close>

definition picker_of :: "string \<Rightarrow> string \<times> bool \<Rightarrow> bool" where
  "picker_of c p = (if snd p then fst p = c else True)"

definition shown_is_active :: "controller \<Rightarrow> bool" where
  "shown_is_active this = list_all (picker_of (currentFilter this)) (pickers this)"

definition subcategory_owned :: "controller \<Rightarrow> bool" where
  "subcategory_owned this =
     (if currentSubcategory this = Null then True
      else list_ex (\<lambda>b. kind b = SubcategoryBtn (currentFilter this) \<and>
                         data_filter b = currentSubcategory this) (buttons this))"

definition none_shown :: "controller \<Rightarrow> bool" where
  "none_shown this = (\<not> list_ex snd (pickers this))"

section \<open>A page to run the script on\<close>

text \<open>An event node as the page holds it before the script has touched it.\<close>

definition page_event ::
  "string \<Rightarrow> string \<Rightarrow> string \<Rightarrow> string list \<Rightarrow> string list \<Rightarrow> jsval \<Rightarrow> jsval \<Rightarrow> nat list \<Rightarrow> event" where
  "page_event title description year categoryTags subcategoryTags cat sub sections =
     \<lparr> h3 = flush title, para = flush description, event_year = year,
       category_tags = categoryTags, subcategory_tags = subcategoryTags,
       dataset_category = cat, dataset_subcategory = sub,
       display = [], opacity = [], transform = [], inside = sections,
       entry = \<lparr> cached_text = [], category = Undefined, subcategory = Undefined \<rparr>,
       hide_timers = 0 \<rparr>"

definition page_button :: "button_kind \<Rightarrow> string \<Rightarrow> bool \<Rightarrow> button" where
  "page_button k code a = \<lparr> kind = k, data_filter = Str code, active = a \<rparr>"

text \<open>
  Three sections with one event each, the three filter buttons and a picker for each of
  the two categories that have subcategories.
\<close>

definition demo_events :: "event list" where
  "demo_events =
     [ page_event ''Privacy act signed'' ''A data protection regulation takes effect'' ''2018''
         [''Regulation''] [''Privacy''] (Str ''regulation'') (Str ''privacy'') [0],
       page_event ''Acme raises a seed round (2019)'' ''Two founders close the round'' ''2019''
         [''Founder''] [''Seed''] (Str ''founder'') (Str ''seed'') [1],
       page_event ''Acme closes its series A'' ''Growth funding for the founders'' ''2021''
         [''Founder''] [''Series A''] (Str ''founder'') (Str ''series-a'') [2] ]"

definition demo_buttons :: "button list" where
  "demo_buttons =
     [ page_button FilterBtn ''all'' True,
       page_button FilterBtn ''founder'' False,
       page_button FilterBtn ''regulation'' False,
       page_button (SubcategoryBtn ''founder'') ''seed'' False,
       page_button (SubcategoryBtn ''founder'') ''series-a'' False,
       page_button (SubcategoryBtn ''regulation'') ''privacy'' False ]"

definition demo :: controller where
  "demo = TimelineController demo_events ['''', '''', ''''] demo_buttons
            [(''founder'', False), (''regulation'', False)]"

text \<open>A page whose one title shows the text \<^verbatim>\<open>&amp;\<close> to its reader.\<close>

definition entity_page :: controller where
  "entity_page = TimelineController
     [ page_event ''Use &amp; to write an ampersand'' ''A short guide to markup'' ''1995''
         [''Founder''] [] (Str ''founder'') Undefined [0] ]
     [''''] demo_buttons [(''founder'', False), (''regulation'', False)]"

text \<open>A frame followed by the timeouts it leaves behind.\<close>

definition pass :: "controller \<Rightarrow> controller run" where
  "pass this =
     (case applyAllFilters_frame this of
        Completed s \<Rightarrow> Completed (settle s)
      | Thrown err s \<Rightarrow> Thrown err (settle s)
      | Unmodelled \<Rightarrow> Unmodelled)"

text \<open>
  Typing a term into the search box and waiting: the debounce timeout, the frame and the
  timeouts of the frame.
\<close>

definition search_for :: "string \<Rightarrow> controller \<Rightarrow> controller run" where
  "search_for v this = pass (searchTimeout_fire (searchInput_input this v))"

text \<open>A click on a filter button and waiting, in the same way.\<close>

definition choose_filter :: "jsval \<Rightarrow> controller \<Rightarrow> controller run" where
  "choose_filter v this =
     and_then (filterButton_click this v) (\<lambda>s. pass (filterTimeout_fire s))"

text \<open>
  On the demo page, after a click on \<^verbatim>\<open>all\<close> has shown everything: the term \<^verbatim>\<open>(\<close> is typed. On
  the page with the \<^verbatim>\<open>&amp;\<close> title: the term \<^verbatim>\<open>write\<close> is typed and then deleted again.
\<close>

definition typed_parenthesis :: "controller run" where
  "typed_parenthesis = and_then (choose_filter (Str ''all'') demo) (search_for ''('')"

definition typed_and_deleted :: "controller run" where
  "typed_and_deleted = and_then (search_for ''write'' entity_page) (search_for [])"

text \<open>
  The inputs on which highlighting stays inside the markup and pattern syntax described
  above: a term without syntax characters, and an event whose title and description have
  plain units only.
\<close>

definition literal_term :: "string \<Rightarrow> bool" where
  "literal_term t = (\<not> list_ex other_syntax_unit t \<and> \<not> list_ex paren_unit t)"

definition plain_event :: "event \<Rightarrow> bool" where
  "plain_event e =
     (list_all plain_unit (textContent (h3 e)) \<and> list_all plain_unit (textContent (para e)))"

text \<open>
  What the frame has done to a node \<open>e\<close> when it leaves it as \<open>e'\<close>, and what the node looks
  like once the timeouts have fired.
\<close>

definition marked :: "controller \<Rightarrow> event \<Rightarrow> event \<Rightarrow> bool" where
  "marked this e e' =
     (entry e' = entry e \<and> inside e' = inside e \<and>
      (if matchesSearch this e \<and> matchesFilter this e
       then display e' = ''flex'' \<and> opacity e' = ''1'' \<and> hide_timers e' = hide_timers e
       else display e' = display e \<and> opacity e' = ''0'' \<and> hide_timers e' = Suc (hide_timers e)))"

definition settled :: "controller \<Rightarrow> event \<Rightarrow> event \<Rightarrow> bool" where
  "settled this e e' =
     (entry e' = entry e \<and> inside e' = inside e \<and> hide_timers e' = 0 \<and>
      (if matchesSearch this e \<and> matchesFilter this e
       then display e' = ''flex'' \<and> opacity e' = ''1''
       else display e' = ''none'' \<and> opacity e' = ''0''))"

text \<open>A scroll position of the window, with a scroll in progress.\<close>

definition scrolling_at :: "real \<Rightarrow> int \<Rightarrow> int \<Rightarrow> scroller" where
  "scrolling_at y h v =
     \<lparr> pageYOffset = y, scrollHeight = h, innerHeight = v,
       isScrolling = True, ticking = True, width_percent = None \<rparr>"

section \<open>Facts about strings\<close>

lemma includes_iff: "includes_str s t \<longleftrightarrow> (\<exists>pre post. s = pre @ t @ post)"
proof (induction s)
  case Nil
  then show ?case by auto
next
  case (Cons c cs)
  show ?case
  proof
    assume "includes_str (c # cs) t"
    then consider "prefix t (c # cs)" | "includes_str cs t"
      by (auto split: if_splits)
    then show "\<exists>pre post. c # cs = pre @ t @ post"
    proof cases
      case 1
      then obtain post where "c # cs = t @ post" by (auto simp: prefix_def)
      then have "c # cs = [] @ t @ post" by simp
      then show ?thesis by blast
    next
      case 2
      with Cons.IH obtain pre post where "cs = pre @ t @ post" by blast
      then have "c # cs = (c # pre) @ t @ post" by simp
      then show ?thesis by blast
    qed
  next
    assume "\<exists>pre post. c # cs = pre @ t @ post"
    then obtain pre post where eq: "c # cs = pre @ t @ post" by blast
    show "includes_str (c # cs) t"
    proof (cases pre)
      case Nil
      with eq have "prefix t (c # cs)" by (simp add: prefix_def)
      then show ?thesis by simp
    next
      case (Cons d pre')
      with eq have "cs = pre' @ t @ post" by simp
      with Cons.IH have "includes_str cs t" by blast
      then show ?thesis by simp
    qed
  qed
qed

section \<open>The match predicates\<close>

text \<open>
  C2. \<^verbatim>\<open>matchesFilter\<close> is true when the active category is \<^verbatim>\<open>all\<close>; otherwise false when the
  category code of the event differs from the active category; otherwise, with an active
  subcategory (one that the test \<^verbatim>\<open>if (this.currentSubcategory)\<close> accepts), true exactly when
  the subcategory code of the event equals it, and true with no active subcategory.
\<close>

theorem matchesFilter_cases:
  "(currentFilter this = ''all'' \<longrightarrow> matchesFilter this e) \<and>
   (currentFilter this \<noteq> ''all'' \<and> category (entry e) \<noteq> Str (currentFilter this)
      \<longrightarrow> \<not> matchesFilter this e) \<and>
   (currentFilter this \<noteq> ''all'' \<and> category (entry e) = Str (currentFilter this) \<and>
    truthy (currentSubcategory this)
      \<longrightarrow> matchesFilter this e = (subcategory (entry e) = currentSubcategory this)) \<and>
   (currentFilter this \<noteq> ''all'' \<and> category (entry e) = Str (currentFilter this) \<and>
    \<not> truthy (currentSubcategory this)
      \<longrightarrow> matchesFilter this e)"
  by (simp add: matchesFilter_def)

theorem matchesFilter_cases_witness:
  "matchesFilter demo (events demo ! 1) \<and>
   \<not> matchesFilter (demo\<lparr>currentFilter := ''regulation''\<rparr>) (events demo ! 1) \<and>
   matchesFilter (demo\<lparr>currentFilter := ''founder'', currentSubcategory := Str ''seed''\<rparr>) (events demo ! 1) \<and>
   \<not> matchesFilter (demo\<lparr>currentFilter := ''founder'', currentSubcategory := Str ''seed''\<rparr>) (events demo ! 2) \<and>
   matchesFilter (demo\<lparr>currentFilter := ''founder''\<rparr>) (events demo ! 2)"
proof -
  let ?e1 = "events demo ! 1" and ?e2 = "events demo ! 2"
  let ?reg = "demo\<lparr>currentFilter := ''regulation''\<rparr>"
  let ?seed = "demo\<lparr>currentFilter := ''founder'', currentSubcategory := Str ''seed''\<rparr>"
  let ?founder = "demo\<lparr>currentFilter := ''founder''\<rparr>"
  have all: "currentFilter demo = ''all''"
    by code_simp
  have e1: "category (entry ?e1) = Str ''founder''" "subcategory (entry ?e1) = Str ''seed''"
    by code_simp+
  have e2: "category (entry ?e2) = Str ''founder''" "subcategory (entry ?e2) = Str ''series-a''"
    by code_simp+
  have sub: "currentSubcategory demo = Null"
    by code_simp
  have "matchesFilter demo ?e1"
    using matchesFilter_cases [of demo ?e1] all by blast
  moreover have "\<not> matchesFilter ?reg ?e1"
    using matchesFilter_cases [of ?reg ?e1] e1 by simp
  moreover have "matchesFilter ?seed ?e1"
    using matchesFilter_cases [of ?seed ?e1] e1 by simp
  moreover have "\<not> matchesFilter ?seed ?e2"
    using matchesFilter_cases [of ?seed ?e2] e2 by simp
  moreover have "matchesFilter ?founder ?e2"
    using matchesFilter_cases [of ?founder ?e2] e2 sub by simp
  ultimately show ?thesis by blast
qed

text \<open>
  C3. With an empty search term \<^verbatim>\<open>matchesSearch\<close> is true. With any other term it is true
  exactly when the text cached for the event, which is the lower-cased concatenation of
  title, description, year, category tags and subcategory tags with single spaces between
  them, contains the lower-cased term as a contiguous substring.
\<close>

theorem matchesSearch_substring:
  "matchesSearch this (e\<lparr>entry := preload_entry e\<rparr>) =
     (currentSearchTerm this = [] \<or>
      (\<exists>pre post.
         toLowerCase (textContent (h3 e) @ '' '' @ textContent (para e) @ '' '' @ event_year e @ '' '' @
                      join (category_tags e) @ '' '' @ join (subcategory_tags e))
         = pre @ toLowerCase (currentSearchTerm this) @ post))"
  by (simp add: matchesSearch_def preload_entry_def includes_iff Let_def)

text \<open>
  C6. Whatever matches under some filter state also matches under \<^verbatim>\<open>all\<close>: going from \<^verbatim>\<open>all\<close> to
  a category, with or without a subcategory, takes events out of the set of matches and
  never puts one in.
\<close>

theorem matchesFilter_monotonic:
  assumes "currentFilter unfiltered = ''all''"
  shows "set (filter (matchesFilter this) es) \<subseteq> set (filter (matchesFilter unfiltered) es)"
  using assms by (auto simp: matchesFilter_def)

theorem matchesFilter_monotonic_witness:
  "currentFilter demo = ''all'' \<and>
   set (filter (matchesFilter (demo\<lparr>currentFilter := ''founder'', currentSubcategory := Str ''seed''\<rparr>))
          (events demo))
     \<subseteq> set (filter (matchesFilter demo) (events demo))"
proof -
  have all: "currentFilter demo = ''all''"
    by code_simp
  show ?thesis
    using all matchesFilter_monotonic [OF all] by blast
qed

section \<open>Scroll progress\<close>

text \<open>Where the document is taller than the window the value written is the clamped percentage.\<close>

lemma scrollPercent_scrollable:
  assumes "innerHeight this < scrollHeight this"
  shows "scrollPercent this =
           Finite (min 100 (max 0 (pageYOffset this / real_of_int (scrollHeight this - innerHeight this) * 100)))"
  using assms by (simp add: scrollPercent_def divide_js_def Let_def)

lemma scrollPercent_bottom:
  assumes "innerHeight this < scrollHeight this"
    and "pageYOffset this = real_of_int (scrollHeight this - innerHeight this)"
  shows "scrollPercent this = Finite 100"
proof -
  have pos: "0 < real_of_int (scrollHeight this - innerHeight this)"
    using assms(1) by simp
  have "pageYOffset this / real_of_int (scrollHeight this - innerHeight this) * 100 = 100"
    using pos unfolding assms(2) by simp
  then show ?thesis
    unfolding scrollPercent_scrollable [OF assms(1)] by simp
qed

text \<open>
  C8. The claim is that the value written is a number in the range 0 to 100 also when the
  document is no taller than the window. At scroll position 0 in a document exactly as
  tall as the window the quotient is 0/0, which is \<^verbatim>\<open>NaN\<close>, and \<^verbatim>\<open>Math.max\<close> and \<^verbatim>\<open>Math.min\<close> hand
  \<^verbatim>\<open>NaN\<close> on: the string assigned to the width is \<^verbatim>\<open>NaN%\<close>.
\<close>

theorem updateProgress_writes_NaN:
  "width_percent (updateProgress (scrolling_at 0 800 800)) = Some NaN"
  by (simp add: updateProgress_def scrolling_at_def scrollPercent_def divide_js_def)


section \<open>The controls\<close>

subsection \<open>What the helpers leave alone\<close>

lemma add_active_absent:
  "find (\<lambda>b. data_filter b = Str v) bs = None \<Longrightarrow> add_active v bs = bs"
  by (induction bs) (auto split: if_splits)

lemma add_active_kind: "map kind (add_active v bs) = map kind bs"
  by (induction bs) auto

lemma add_active_data_filter: "map data_filter (add_active v bs) = map data_filter bs"
  by (induction bs) auto

lemma remove_active_kind: "map kind (remove_active which bs) = map kind bs"
  by (induction bs) (auto simp: remove_active_def)

lemma remove_active_data_filter: "map data_filter (remove_active which bs) = map data_filter bs"
  by (induction bs) (auto simp: remove_active_def)

lemma remove_active_both:
  "remove_active is_subcategory_btn (remove_active is_filter_btn bs) = map (\<lambda>b. b\<lparr>active := False\<rparr>) bs"
  by (induction bs) (auto simp: remove_active_def is_subcategory_btn_def is_filter_btn_def)

lemma updateFilterButtons_fields:
  "currentFilter (updateFilterButtons s) = currentFilter s"
  "currentSubcategory (updateFilterButtons s) = currentSubcategory s"
  "currentSearchTerm (updateFilterButtons s) = currentSearchTerm s"
  "pickers (updateFilterButtons s) = pickers s"
  "events (updateFilterButtons s) = events s"
  "map kind (buttons (updateFilterButtons s)) = map kind (buttons s)"
  "map data_filter (buttons (updateFilterButtons s)) = map data_filter (buttons s)"
  by (simp_all add: updateFilterButtons_def Let_def add_active_kind add_active_data_filter
        remove_active_kind remove_active_data_filter split: option.splits)

lemma updateSubcategoryButtons_fields:
  assumes "outcome (updateSubcategoryButtons s) = Some s'"
  shows "currentFilter s' = currentFilter s"
    and "currentSubcategory s' = currentSubcategory s"
    and "currentSearchTerm s' = currentSearchTerm s"
    and "pickers s' = pickers s"
    and "events s' = events s"
    and "map kind (buttons s') = map kind (buttons s)"
    and "map data_filter (buttons s') = map data_filter (buttons s)"
  using assms
  by (auto simp: updateSubcategoryButtons_def Let_def add_active_kind add_active_data_filter
        remove_active_kind remove_active_data_filter split: option.splits if_splits)

lemma updateSubcategoryButtons_null:
  "currentSubcategory s = Null \<Longrightarrow> \<exists>s'. updateSubcategoryButtons s = Completed s'"
  by (simp add: updateSubcategoryButtons_def Let_def selector_unsafe_def split: option.splits)

lemma hideAllSubcategories_none_shown: "none_shown (hideAllSubcategories s)"
  by (simp add: none_shown_def hideAllSubcategories_def list_ex_iff split_beta)

subsection \<open>The clear button\<close>

text \<open>
  C10. The listener of the clear button always runs to its end or to the exception of
  line 365 (no button for \<^verbatim>\<open>all\<close>). Either way it leaves the search term and the input empty,
  the category \<^verbatim>\<open>all\<close> and the subcategory \<^verbatim>\<open>null\<close>, takes \<^verbatim>\<open>active\<close> off every button and puts it
  on the first button for \<^verbatim>\<open>all\<close>, and leaves every picker as it was: one that carried \<^verbatim>\<open>show\<close>
  before still carries it. (The listener of the document, lines 246-250, hears the same
  click afterwards; it closes the pickers only if the clear button lies outside both
  \<^verbatim>\<open>.filter-group\<close> and \<^verbatim>\<open>.search-container\<close>.)
\<close>

theorem clear_leaves_pickers:
  "\<exists>s. outcome (clearButton_click this) = Some s \<and>
        currentSearchTerm s = [] \<and> searchInput_value s = [] \<and>
        currentFilter s = ''all'' \<and> currentSubcategory s = Null \<and>
        buttons s = add_active ''all'' (map (\<lambda>b. b\<lparr>active := False\<rparr>) (buttons this)) \<and>
        pickers s = pickers this"
  by (cases "find (\<lambda>b. data_filter b = Str ''all'') (map (\<lambda>b. b\<lparr>active := False\<rparr>) (buttons this))")
     (simp_all add: clearButton_click_def resetAllButtons_def querySelector_data_filter_def
        remove_active_both applyAllFilters_def add_active_absent)

subsection \<open>A second click on the active filter\<close>

lemma matchesFilter_cong:
  "currentFilter s = currentFilter this \<Longrightarrow> currentSubcategory s = currentSubcategory this
     \<Longrightarrow> matchesFilter s e = matchesFilter this e"
  by (simp add: matchesFilter_def)

lemma matchesFilter_drop_subcategory:
  "currentFilter s = currentFilter this \<Longrightarrow> currentSubcategory s = Null
     \<Longrightarrow> matchesFilter this e \<Longrightarrow> matchesFilter s e"
  by (auto simp: matchesFilter_def Let_def split: if_splits)

text \<open>What the listener does on a click on the filter that is already active.\<close>

lemma same_filter_click:
  assumes "filter_code = Str ''founder'' \<or> filter_code = Str ''regulation''"
    and "Str (currentFilter this) = filter_code"
    and "getElementById this (currentFilter this) = Some picker"
  shows "\<exists>s. filterButton_click this filter_code = Completed s \<and>
             currentFilter s = currentFilter this \<and>
             currentSearchTerm s = currentSearchTerm this \<and>
             (if snd picker
              then currentSubcategory s = Null \<and> none_shown s \<and>
                   (matchesFilter this e \<longrightarrow> matchesFilter s e)
              else currentSubcategory s = currentSubcategory this \<and>
                   pickers s = add_show (currentFilter this) (pickers this) \<and>
                   matchesFilter s e = matchesFilter this e)"
proof (cases "snd picker")
  case False
  let ?s = "debouncedFilter (this\<lparr>pickers := add_show (currentFilter this) (pickers this)\<rparr>)"
  have "filterButton_click this filter_code = Completed ?s"
    using assms False by (auto simp: filterButton_click_def)
  moreover have "matchesFilter ?s e = matchesFilter this e"
    by (rule matchesFilter_cong) (simp_all add: debouncedFilter_def)
  ultimately show ?thesis
    using False by (simp add: debouncedFilter_def)
next
  case True
  let ?h = "hideAllSubcategories (this\<lparr>currentSubcategory := Null\<rparr>)"
  have "currentSubcategory ?h = Null"
    by (simp add: hideAllSubcategories_def)
  then obtain u where u: "updateSubcategoryButtons ?h = Completed u"
    using updateSubcategoryButtons_null by blast
  then have out: "outcome (updateSubcategoryButtons ?h) = Some u"
    by simp
  have click: "filterButton_click this filter_code = Completed (debouncedFilter u)"
    using assms True u by (auto simp: filterButton_click_def)
  have f: "currentFilter u = currentFilter this" and t: "currentSearchTerm u = currentSearchTerm this"
    and n: "currentSubcategory u = Null" and p: "pickers u = pickers ?h"
    using updateSubcategoryButtons_fields [OF out] by (simp_all add: hideAllSubcategories_def)
  have "none_shown (debouncedFilter u)"
    using hideAllSubcategories_none_shown [of "this\<lparr>currentSubcategory := Null\<rparr>"] p
    by (simp add: none_shown_def debouncedFilter_def)
  moreover have "matchesFilter this e \<longrightarrow> matchesFilter (debouncedFilter u) e"
    using matchesFilter_drop_subcategory [of "debouncedFilter u" this e] f n
    by (simp add: debouncedFilter_def)
  ultimately show ?thesis
    using click True f t n by (simp add: debouncedFilter_def)
qed

text \<open>
  C9, as the code has it. A click on the filter that is already active, with its picker on
  the page: if the picker is closed the click opens it and changes neither category nor
  subcategory, so \<^verbatim>\<open>matchesFilter\<close> is the same for every event; if the picker is open the
  click closes all pickers and sets the subcategory to \<^verbatim>\<open>null\<close>, so every event that matched
  still matches (and more events may).
\<close>

theorem second_click_toggles:
  assumes "filter_code = Str ''founder'' \<or> filter_code = Str ''regulation''"
    and "Str (currentFilter this) = filter_code"
    and "getElementById this (currentFilter this) = Some picker"
  shows "\<exists>s. filterButton_click this filter_code = Completed s \<and>
             currentFilter s = currentFilter this \<and>
             currentSearchTerm s = currentSearchTerm this \<and>
             (if snd picker
              then currentSubcategory s = Null \<and> none_shown s \<and>
                   (matchesFilter this e \<longrightarrow> matchesFilter s e)
              else currentSubcategory s = currentSubcategory this \<and>
                   pickers s = add_show (currentFilter this) (pickers this) \<and>
                   matchesFilter s e = matchesFilter this e)"
  using assms by (rule same_filter_click)

text \<open>
  C9 as stated does not hold. On the demo page, after \<^verbatim>\<open>founder\<close> and then the subcategory
  \<^verbatim>\<open>seed\<close> are chosen, the series A event does not match; a second click on \<^verbatim>\<open>founder\<close> sets
  the subcategory to \<^verbatim>\<open>null\<close> and the same event matches.
\<close>

theorem second_click_changes_predicate:
  "map_option (\<lambda>s. (currentSubcategory s, matchesFilter s (events demo ! 2)))
     (run_actions demo [ClickFilter (Str ''founder''), ClickSubcategory 3])
     = Some (Str ''seed'', False) \<and>
   map_option (\<lambda>s. (currentSubcategory s, matchesFilter s (events demo ! 2)))
     (run_actions demo [ClickFilter (Str ''founder''), ClickSubcategory 3, ClickFilter (Str ''founder'')])
     = Some (Null, True)"
  by code_simp


theorem second_click_toggles_witness:
  "Str (currentFilter
         (demo\<lparr>currentFilter := ''founder'', currentSubcategory := Str ''seed'',
               pickers := [(''founder'', True), (''regulation'', False)]\<rparr>)) = Str ''founder'' \<and>
   getElementById
     (demo\<lparr>currentFilter := ''founder'', currentSubcategory := Str ''seed'',
           pickers := [(''founder'', True), (''regulation'', False)]\<rparr>) ''founder''
     = Some (''founder'', True) \<and>
   matchesFilter
     (demo\<lparr>currentFilter := ''founder'', currentSubcategory := Str ''seed'',
           pickers := [(''founder'', True), (''regulation'', False)]\<rparr>) (events demo ! 1) \<and>
   (\<exists>s. filterButton_click
          (demo\<lparr>currentFilter := ''founder'', currentSubcategory := Str ''seed'',
                pickers := [(''founder'', True), (''regulation'', False)]\<rparr>) (Str ''founder'')
          = Completed s \<and>
        currentFilter s = ''founder'' \<and> currentSubcategory s = Null \<and> none_shown s \<and>
        matchesFilter s (events demo ! 1))"
proof -
  let ?st = "demo\<lparr>currentFilter := ''founder'', currentSubcategory := Str ''seed'',
                   pickers := [(''founder'', True), (''regulation'', False)]\<rparr>"
  have cf: "currentFilter ?st = ''founder''"
    by simp
  have picker: "getElementById ?st (currentFilter ?st) = Some (''founder'', True)"
    by (simp add: getElementById_def)
  have before: "matchesFilter ?st (events demo ! 1)"
    by code_simp
  from second_click_toggles [of "Str ''founder''" ?st "(''founder'', True)" "events demo ! 1"] cf picker
  obtain s where "filterButton_click ?st (Str ''founder'') = Completed s"
    and "currentFilter s = currentFilter ?st" and "currentSubcategory s = Null" and "none_shown s"
    and "matchesFilter ?st (events demo ! 1) \<longrightarrow> matchesFilter s (events demo ! 1)"
    by auto
  with before cf picker show ?thesis
    by auto
qed

subsection \<open>The filter state along a sequence of actions\<close>

lemma owned_by_signature:
  "map kind bs' = map kind bs \<Longrightarrow> map data_filter bs' = map data_filter bs
     \<Longrightarrow> list_ex (\<lambda>b. kind b = k \<and> data_filter b = d) bs'
         = list_ex (\<lambda>b. kind b = k \<and> data_filter b = d) bs"
proof (induction bs arbitrary: bs')
  case Nil
  then show ?case by simp
next
  case (Cons b bs)
  then obtain c cs where "bs' = c # cs"
    by (cases bs') auto
  with Cons show ?case by auto
qed

lemma subcategory_owned_cong:
  assumes "currentFilter s' = currentFilter s" and "currentSubcategory s' = currentSubcategory s"
    and "map kind (buttons s') = map kind (buttons s)"
    and "map data_filter (buttons s') = map data_filter (buttons s)"
  shows "subcategory_owned s' = subcategory_owned s"
  using assms owned_by_signature [OF assms(3) assms(4)]
  by (simp add: subcategory_owned_def)

lemma subcategory_owned_null: "currentSubcategory s = Null \<Longrightarrow> subcategory_owned s"
  by (simp add: subcategory_owned_def)

lemma none_shown_is_active: "none_shown s \<Longrightarrow> shown_is_active s"
  by (auto simp: none_shown_def shown_is_active_def list_ex_iff list_all_iff picker_of_def)

lemma shown_is_active_cong:
  "pickers s' = pickers s \<Longrightarrow> currentFilter s' = currentFilter s
     \<Longrightarrow> shown_is_active s' = shown_is_active s"
  by (simp add: shown_is_active_def)

lemma add_show_keeps:
  "list_all (picker_of c) ps
     \<Longrightarrow> list_all (picker_of c) (add_show c ps)"
  by (induction ps) (auto simp: picker_of_def)

lemma add_show_after_hide:
  "list_all (picker_of c) (add_show c (map (\<lambda>(c, s). (c, False)) ps))"
  by (rule add_show_keeps) (simp add: list_all_iff split_beta picker_of_def)

lemma click_all:
  assumes "act s (ClickFilter (Str ''all'')) = Some s'"
  shows "currentFilter s' = ''all''" and "currentSubcategory s' = Null" and "none_shown s'"
  using assms hideAllSubcategories_none_shown [of "s\<lparr>currentFilter := ''all'', currentSubcategory := Null\<rparr>"]
  by (auto simp: filterButton_click_def debouncedFilter_def updateFilterButtons_fields
        none_shown_def hideAllSubcategories_def)

lemma click_other_category:
  assumes "v = ''founder'' \<or> v = ''regulation''" and "currentFilter s \<noteq> v"
    and "act s (ClickFilter (Str v)) = Some s'"
  shows "currentFilter s' = v" and "currentSubcategory s' = Null" and "shown_is_active s'"
    and "pickers s' = add_show v (map (\<lambda>(c, shown). (c, False)) (pickers s))"
  using assms add_show_after_hide [of v "pickers s"]
  by (auto simp: filterButton_click_def debouncedFilter_def updateFilterButtons_fields
        shown_is_active_def hideAllSubcategories_def Let_def)

lemma click_filter_keeps:
  assumes "act s (ClickFilter v) = Some s'" and "shown_is_active s" and "subcategory_owned s"
  shows "shown_is_active s' \<and> subcategory_owned s'"
proof -
  consider (all) "v = Str ''all''"
    | (same) "v = Str ''founder'' \<or> v = Str ''regulation''" "Str (currentFilter s) = v"
    | (switch) c where "v = Str c" "c = ''founder'' \<or> c = ''regulation''" "currentFilter s \<noteq> c"
    | (other) "v \<noteq> Str ''all''" "v \<noteq> Str ''founder''" "v \<noteq> Str ''regulation''"
    by (cases v) auto
  then show ?thesis
  proof cases
    case all
    with assms(1) click_all [of s s'] show ?thesis
      by (simp add: none_shown_is_active subcategory_owned_null)
  next
    case switch
    with assms(1) click_other_category [of c s s'] show ?thesis
      by (simp add: subcategory_owned_null)
  next
    case other
    with assms(1) have s': "s' = debouncedFilter (updateFilterButtons s)"
      by (simp add: filterButton_click_def)
    have "shown_is_active s' = shown_is_active s"
      unfolding s' by (rule shown_is_active_cong) (simp_all add: debouncedFilter_def updateFilterButtons_fields)
    moreover have "subcategory_owned s' = subcategory_owned s"
      unfolding s' by (rule subcategory_owned_cong) (simp_all add: debouncedFilter_def updateFilterButtons_fields)
    ultimately show ?thesis
      using assms by simp
  next
    case same
    show ?thesis
    proof (cases "getElementById s (currentFilter s)")
      case None
      with same assms(1) have "s' = s"
        by (auto simp: filterButton_click_def)
      with assms show ?thesis by simp
    next
      case (Some picker)
      from same_filter_click [OF same(1) same(2) Some, of "hd (events s)"] assms(1)
      have f: "currentFilter s' = currentFilter s"
        and shown: "snd picker \<Longrightarrow> currentSubcategory s' = Null \<and> none_shown s'"
        and closed: "\<not> snd picker \<Longrightarrow> currentSubcategory s' = currentSubcategory s \<and>
                       pickers s' = add_show (currentFilter s) (pickers s)"
        by (auto split: if_splits)
      show ?thesis
      proof (cases "snd picker")
        case True
        with shown show ?thesis
          by (simp add: none_shown_is_active subcategory_owned_null)
      next
        case False
        have b: "buttons s' = buttons s"
          using assms(1) same Some False by (auto simp: filterButton_click_def debouncedFilter_def)
        have "subcategory_owned s' = subcategory_owned s"
          by (rule subcategory_owned_cong) (use f closed False b in simp_all)
        moreover have "shown_is_active s'"
          using add_show_keeps [of "currentFilter s" "pickers s"] assms(2) f closed False
          by (simp add: shown_is_active_def)
        ultimately show ?thesis
          using assms(3) by simp
      qed
    qed
  qed
qed

lemma updateSubcategoryButtons_no_throw: "updateSubcategoryButtons s \<noteq> Thrown err s'"
  by (simp add: updateSubcategoryButtons_def Let_def split: option.splits)

lemma click_subcategory_keeps:
  assumes "act s (ClickSubcategory i) = Some s'" and "shown_is_active s"
  shows "shown_is_active s' \<and> subcategory_owned s'"
proof -
  let ?b = "buttons s ! i"
  from assms(1) have i: "i < length (buttons s)" and ex: "exposed s ?b"
    and out: "outcome (subcategoryButton_click s (data_filter ?b)) = Some s'"
    by (auto split: if_splits)
  from ex obtain owner where k: "kind ?b = SubcategoryBtn owner" and o: "(owner, True) \<in> set (pickers s)"
    by (auto simp: exposed_def split: button_kind.splits)
  from o assms(2) have "picker_of (currentFilter s) (owner, True)"
    by (auto simp: shown_is_active_def list_all_iff)
  then have owner: "owner = currentFilter s"
    by (simp add: picker_of_def)
  let ?t = "s\<lparr>currentSubcategory := data_filter ?b\<rparr>"
  from out obtain u where u: "outcome (updateSubcategoryButtons ?t) = Some u" and s': "s' = debouncedFilter u"
    using updateSubcategoryButtons_no_throw [of ?t]
    by (auto simp: subcategoryButton_click_def split: run.splits)
  note fields = updateSubcategoryButtons_fields [OF u]
  have "shown_is_active s' = shown_is_active s"
    by (rule shown_is_active_cong) (simp_all add: s' debouncedFilter_def fields)
  moreover have "subcategory_owned s' = subcategory_owned ?t"
    by (rule subcategory_owned_cong) (simp_all add: s' debouncedFilter_def fields)
  moreover have "subcategory_owned ?t"
    using i k owner by (auto simp: subcategory_owned_def list_ex_iff)
  ultimately show ?thesis
    using assms(2) by simp
qed

lemma act_keeps:
  assumes "act s a = Some s'" and "a \<noteq> ClickClear" and "shown_is_active s" and "subcategory_owned s"
  shows "shown_is_active s' \<and> subcategory_owned s'"
proof (cases a)
  case (ClickFilter v)
  with assms click_filter_keeps show ?thesis by blast
next
  case (ClickSubcategory i)
  with assms click_subcategory_keeps show ?thesis by blast
next
  case (TypeSearch v)
  with assms(1) have "s' = searchInput_input s v" by simp
  then have "shown_is_active s' = shown_is_active s" and "subcategory_owned s' = subcategory_owned s"
    by (simp_all add: searchInput_input_def debouncedSearch_def shown_is_active_def subcategory_owned_def)
  with assms show ?thesis by simp
next
  case PressEnter
  with assms(1) have "s' = searchInput_enter s" by simp
  then have "shown_is_active s' = shown_is_active s" and "subcategory_owned s' = subcategory_owned s"
    by (simp_all add: searchInput_enter_def performSearch_def applyAllFilters_def
          shown_is_active_def subcategory_owned_def)
  with assms show ?thesis by simp
next
  case ClickSearch
  with assms(1) have "s' = searchButton_click s" by simp
  then have "shown_is_active s' = shown_is_active s" and "subcategory_owned s' = subcategory_owned s"
    by (simp_all add: searchButton_click_def performSearch_def applyAllFilters_def
          shown_is_active_def subcategory_owned_def)
  with assms show ?thesis by simp
next
  case ClickClear
  with assms show ?thesis by simp
next
  case ClickOutside
  with assms(1) have s': "s' = hideAllSubcategories s"
    by (simp add: document_click_outside_def)
  then have "subcategory_owned s' = subcategory_owned s"
    by (simp add: subcategory_owned_def hideAllSubcategories_def)
  moreover have "shown_is_active s'"
    unfolding s' by (rule none_shown_is_active) (rule hideAllSubcategories_none_shown)
  ultimately show ?thesis
    using assms by simp
qed

lemma run_actions_keep:
  assumes "run_actions s0 as = Some s" and "ClickClear \<notin> set as"
    and "shown_is_active s0" and "subcategory_owned s0"
  shows "shown_is_active s \<and> subcategory_owned s"
  using assms
proof (induction as arbitrary: s0)
  case Nil
  then show ?case by simp
next
  case (Cons a as)
  from Cons.prems(1) obtain s1 where a: "act s0 a = Some s1" and rest: "run_actions s1 as = Some s"
    by (auto split: option.splits)
  from Cons.prems have "a \<noteq> ClickClear" and "ClickClear \<notin> set as"
    by auto
  with act_keeps [OF a] Cons.prems have "shown_is_active s1 \<and> subcategory_owned s1"
    by blast
  with Cons.IH [OF rest] \<open>ClickClear \<notin> set as\<close> show ?case
    by blast
qed

text \<open>
  C5, as the code has it. Along every sequence of actions that does not use the clear
  button, started where no picker is open and the subcategory is \<^verbatim>\<open>null\<close> or owned: a picker
  that carries \<^verbatim>\<open>show\<close> is the picker of the active category, and an active subcategory other
  than \<^verbatim>\<open>null\<close> is the code of a button in the picker of the active category. A click on
  \<^verbatim>\<open>all\<close> leaves the subcategory \<^verbatim>\<open>null\<close> and no picker shown. A click on the other of the two
  categories leaves the subcategory \<^verbatim>\<open>null\<close>, closes every picker and then opens the picker
  of the category clicked.
\<close>

theorem filter_state_invariant:
  assumes "run_actions s0 as = Some s" and "ClickClear \<notin> set as"
    and "shown_is_active s0" and "subcategory_owned s0"
  shows "shown_is_active s \<and> subcategory_owned s \<and>
         (\<forall>s'. act s (ClickFilter (Str ''all'')) = Some s'
            \<longrightarrow> currentFilter s' = ''all'' \<and> currentSubcategory s' = Null \<and> none_shown s') \<and>
         (\<forall>v s'. (v = ''founder'' \<or> v = ''regulation'') \<and> currentFilter s \<noteq> v \<and>
                  act s (ClickFilter (Str v)) = Some s'
            \<longrightarrow> currentFilter s' = v \<and> currentSubcategory s' = Null \<and>
                pickers s' = add_show v (map (\<lambda>(c, shown). (c, False)) (pickers s)))"
proof (intro conjI allI impI)
  show "shown_is_active s" and "subcategory_owned s"
    using run_actions_keep [OF assms] by simp_all
next
  fix s'
  assume "act s (ClickFilter (Str ''all'')) = Some s'"
  then show "currentFilter s' = ''all''" and "currentSubcategory s' = Null" and "none_shown s'"
    by (rule click_all)+
next
  fix v s'
  assume "(v = ''founder'' \<or> v = ''regulation'') \<and> currentFilter s \<noteq> v \<and>
          act s (ClickFilter (Str v)) = Some s'"
  then have v: "v = ''founder'' \<or> v = ''regulation''" and n: "currentFilter s \<noteq> v"
    and a: "act s (ClickFilter (Str v)) = Some s'"
    by simp_all
  show "currentFilter s' = v" and "currentSubcategory s' = Null"
    and "pickers s' = add_show v (map (\<lambda>(c, shown). (c, False)) (pickers s))"
    by (rule click_other_category [OF v n a])+
qed

text \<open>
  C5 as stated does not hold: after the switch from \<^verbatim>\<open>founder\<close> to \<^verbatim>\<open>regulation\<close> on the demo
  page the subcategory is \<^verbatim>\<open>null\<close>, but the picker of \<^verbatim>\<open>regulation\<close> carries \<^verbatim>\<open>show\<close>.
\<close>

theorem switch_shows_picker:
  "map_option (\<lambda>s. (currentFilter s, currentSubcategory s, pickers s))
     (run_actions demo [ClickFilter (Str ''founder''), ClickFilter (Str ''regulation'')])
     = Some (''regulation'', Null, [(''founder'', False), (''regulation'', True)])"
  by code_simp

text \<open>
  With the clear button the first part fails as well: the picker stays open (C10), so a
  subcategory can be chosen while the category is \<^verbatim>\<open>all\<close>.
\<close>

lemma clear_then_subcategory:
  "map_option (\<lambda>s. (currentFilter s, currentSubcategory s, pickers s))
     (run_actions demo [ClickFilter (Str ''founder''), ClickClear, ClickSubcategory 3])
     = Some (''all'', Str ''seed'', [(''founder'', True), (''regulation'', False)])"
  by code_simp


theorem filter_state_invariant_witness:
  "ClickClear \<notin> set [ClickFilter (Str ''founder''), ClickSubcategory 3] \<and>
   shown_is_active demo \<and> subcategory_owned demo \<and>
   (\<exists>s. run_actions demo [ClickFilter (Str ''founder''), ClickSubcategory 3] = Some s \<and>
        currentFilter s = ''founder'' \<and> currentSubcategory s = Str ''seed'' \<and>
        shown_is_active s \<and> subcategory_owned s)"
proof -
  let ?as = "[ClickFilter (Str ''founder''), ClickSubcategory 3]"
  have no_clear: "ClickClear \<notin> set ?as"
    by simp
  have start: "shown_is_active demo" "subcategory_owned demo"
    by code_simp+
  have "map_option (\<lambda>s. (currentFilter s, currentSubcategory s)) (run_actions demo ?as)
          = Some (''founder'', Str ''seed'')"
    by code_simp
  then obtain s where s: "run_actions demo ?as = Some s"
    and fields: "currentFilter s = ''founder''" "currentSubcategory s = Str ''seed''"
    by auto
  from filter_state_invariant [OF s no_clear start]
  have "shown_is_active s \<and> subcategory_owned s"
    by blast
  with no_clear start s fields show ?thesis
    by blast
qed


section \<open>Highlighting and removing highlights\<close>

subsection \<open>The pattern of a term without syntax characters\<close>

lemma paren_depth_no_parens:
  "\<not> list_ex paren_unit t \<Longrightarrow> paren_depth d (t @ rest) = paren_depth d rest"
  by (induction t) (auto simp: paren_unit_def)

lemma RegExp_gi_literal:
  assumes "\<not> list_ex other_syntax_unit t" and "\<not> list_ex paren_unit t"
  shows "RegExp_gi (''('' @ t @ '')'') = Regex t"
proof -
  have "\<not> list_ex other_syntax_unit (''('' @ t @ '')'')"
    using assms(1) by (simp add: other_syntax_unit_def)
  moreover have "paren_depth 0 (''('' @ t @ '')'') = Some 0"
    using paren_depth_no_parens [OF assms(2), of "Suc 0" "'')''"] by simp
  ultimately show ?thesis
    using assms(2) by (simp add: RegExp_gi_def)
qed

text \<open>A term with an opening parenthesis and no other syntax character is no pattern.\<close>

lemma paren_depth_grows:
  "\<not> list_ex (\<lambda>c. c = CHR '')'') t \<Longrightarrow> \<exists>k. paren_depth d t = Some (d + k)"
proof (induction t arbitrary: d)
  case Nil
  then show ?case by simp
next
  case (Cons c t)
  show ?case
  proof (cases "c = CHR ''(''")
    case True
    from Cons.IH [of "Suc d"] Cons.prems obtain k where "paren_depth (Suc d) t = Some (Suc d + k)"
      by auto
    with True have "paren_depth d (c # t) = Some (d + Suc k)"
      by simp
    then show ?thesis by blast
  next
    case False
    with Cons show ?thesis by auto
  qed
qed

lemma paren_depth_append:
  "paren_depth d t = Some m \<Longrightarrow> paren_depth d (t @ rest) = paren_depth m rest"
  by (induction t arbitrary: d) (auto split: if_splits nat.splits)

lemma paren_depth_open:
  assumes "\<not> list_ex (\<lambda>c. c = CHR '')'') t" and "CHR ''('' \<in> set t"
  shows "\<exists>k. paren_depth d t = Some (Suc (d + k))"
  using assms
proof (induction t arbitrary: d)
  case Nil
  then show ?case by simp
next
  case (Cons c t)
  show ?case
  proof (cases "c = CHR ''(''")
    case True
    from paren_depth_grows [of t "Suc d"] Cons.prems(1)
    obtain k where "paren_depth (Suc d) t = Some (Suc d + k)"
      by auto
    with True have "paren_depth d (c # t) = Some (Suc (d + k))"
      by simp
    then show ?thesis by blast
  next
    case False
    with Cons show ?thesis by auto
  qed
qed

lemma RegExp_gi_unclosed:
  assumes "\<not> list_ex other_syntax_unit t" and "\<not> list_ex (\<lambda>c. c = CHR '')'') t"
    and "CHR ''('' \<in> set t"
  shows "RegExp_gi (''('' @ t @ '')'') = RegexThrows"
proof -
  have "\<not> list_ex other_syntax_unit (''('' @ t @ '')'')"
    using assms(1) by (simp add: other_syntax_unit_def)
  moreover from paren_depth_open [OF assms(2,3), of "Suc 0"]
  obtain k where "paren_depth (Suc 0) t = Some (Suc (Suc 0 + k))"
    by blast
  then have "paren_depth 0 (''('' @ t @ '')'') = Some (Suc k)"
    using paren_depth_append [of "Suc 0" t "Suc (Suc 0 + k)" "'')''"] by simp
  ultimately show ?thesis
    by (simp add: RegExp_gi_def)
qed

subsection \<open>Parsing what the replacement wrote\<close>

lemma tokenize_unit:
  "plain_unit c \<Longrightarrow> tokenize (c # cs) = map_option (Cons (Unit c)) (tokenize cs)"
  by simp

lemma takeWhile_plain_span:
  assumes "list_all plain_unit b"
  shows "takeWhile plain_unit (b @ span_close @ rest) = b"
    and "dropWhile plain_unit (b @ span_close @ rest) = span_close @ rest"
  using assms by (induction b) (auto simp: span_close_def plain_unit_def)

lemma tokenize_span:
  assumes "list_all plain_unit b"
  shows "tokenize (span_open @ b @ span_close @ rest) = map_option (Cons (Span b)) (tokenize rest)"
proof -
  obtain c cs where open_eq: "span_open = c # cs" and c: "c = CHR ''<''"
    by (simp add: span_open_def)
  have not_plain: "\<not> plain_unit c"
    by (simp add: c plain_unit_def)
  have whole: "c # cs @ b @ span_close @ rest = span_open @ b @ span_close @ rest"
    by (simp add: open_eq)
  have "tokenize (c # (cs @ b @ span_close @ rest)) = map_option (Cons (Span b)) (tokenize rest)"
    unfolding tokenize.simps
    by (simp only: not_plain if_False whole prefixI [OF refl] if_True Let_def
          append_eq_conv_conj drop_append takeWhile_plain_span [OF assms] length_0_conv)
       (simp add: takeWhile_plain_span [OF assms])
  then show ?thesis
    by (simp add: open_eq)
qed

lemma matches_at_plain:
  "list_all plain_unit s \<Longrightarrow> list_all plain_unit (take n s) \<and> list_all plain_unit (drop n s)"
  by (auto simp: list_all_iff dest: in_set_takeD in_set_dropD)

text \<open>
  On a text of plain units the markup the replacement writes is parsed to the end, and
  the tokens spell the text again.
\<close>

lemma tokenize_replace_gi:
  "list_all plain_unit s \<Longrightarrow>
     \<exists>ts. tokenize (replace_gi t s) = Some ts \<and> concat (map token_text ts) = s"
proof (induction t s rule: replace_gi.induct)
  case (1 t s)
  have empty_span: "tokenize (span_open @ span_close @ rest) = map_option (Cons (Span [])) (tokenize rest)" for rest
    using tokenize_span [of "[]" rest] by simp
  show ?case
  proof (cases s)
    case Nil
    show ?thesis
    proof (cases "matches_at t s")
      case True
      with Nil have "replace_gi t s = span_open @ span_close @ []"
        by (subst replace_gi.simps) simp
      with empty_span [of "[]"] Nil show ?thesis
        by simp
    next
      case False
      with Nil have "replace_gi t s = []"
        by (subst replace_gi.simps) simp
      with Nil show ?thesis by simp
    qed
  next
    case (Cons c cs)
    with "1.prems" have c: "plain_unit c" and cs: "list_all plain_unit cs"
      by simp_all
    show ?thesis
    proof (cases "matches_at t s")
      case False
      with Cons have eq: "replace_gi t s = c # replace_gi t cs"
        by (subst replace_gi.simps) simp
      from "1.IH"(3) [OF False Cons cs] obtain ts
        where "tokenize (replace_gi t cs) = Some ts" and "concat (map token_text ts) = cs"
        by blast
      with eq c Cons show ?thesis
        by (simp del: replace_gi.simps)
    next
      case True
      show ?thesis
      proof (cases "t = []")
        case empty: True
        with True Cons have eq: "replace_gi t s = span_open @ span_close @ c # replace_gi t cs"
          by (subst replace_gi.simps) simp
        from "1.IH"(1) [OF True Cons empty cs] obtain ts
          where "tokenize (replace_gi t cs) = Some ts" and "concat (map token_text ts) = cs"
          by blast
        with eq c Cons empty_span [of "c # replace_gi t cs"] show ?thesis
          by (simp del: replace_gi.simps)
      next
        case nonempty: False
        let ?m = "take (length t) s" and ?r = "drop (length t) s"
        from True Cons nonempty
        have eq: "replace_gi t s = span_open @ ?m @ span_close @ replace_gi t ?r"
          by (subst replace_gi.simps) simp
        from matches_at_plain [OF "1.prems", of "length t"]
        have m: "list_all plain_unit ?m" and r: "list_all plain_unit ?r"
          by simp_all
        from "1.IH"(2) [OF True Cons nonempty r] obtain ts
          where "tokenize (replace_gi t ?r) = Some ts" and "concat (map token_text ts) = ?r"
          by blast
        with eq tokenize_span [OF m, of "replace_gi t ?r"] show ?thesis
          by (simp del: replace_gi.simps)
      qed
    qed
  qed
qed

subsection \<open>Text nodes and highlight spans\<close>

lemma textContent_flush: "textContent (flush s) = s"
  by (simp add: textContent_def flush_def)

lemma textContent_append: "textContent (xs @ ys) = textContent xs @ textContent ys"
  by (simp add: textContent_def)

lemma textContent_build: "textContent (build acc ts) = acc @ concat (map token_text ts)"
  by (induction acc ts rule: build.induct)
     (simp_all add: textContent_flush textContent_append, simp_all add: textContent_def)

lemma build_no_span:
  "\<not> list_ex is_span ts \<Longrightarrow> build acc ts = flush (acc @ concat (map token_text ts))"
  by (induction acc ts rule: build.induct) simp_all

lemma highlights_build:
  "length (filter is_highlight (build acc ts)) = length (filter is_span ts)"
  by (induction acc ts rule: build.induct) (simp_all add: flush_def)

lemma textContent_merge_text: "textContent (merge_text acc ns) = acc @ textContent ns"
  by (induction acc ns rule: merge_text.induct)
     (simp_all add: textContent_flush textContent_append, simp_all add: textContent_def)

lemma highlights_merge_text:
  "length (filter is_highlight (merge_text acc ns)) = length (filter is_highlight ns)"
  by (induction acc ns rule: merge_text.induct) (simp_all add: flush_def)

lemma merge_text_no_highlight:
  "filter is_highlight ns = [] \<Longrightarrow> merge_text acc ns = flush (acc @ textContent ns)"
  by (induction acc ns rule: merge_text.induct) (simp_all add: textContent_def)

lemma textContent_replaceChild_first: "textContent (replaceChild_first ns) = textContent ns"
  by (induction ns rule: replaceChild_first.induct) (simp_all add: textContent_def)

lemma highlights_replaceChild_first:
  "length (filter is_highlight (replaceChild_first ns)) = length (filter is_highlight ns) - 1"
  by (induction ns rule: replaceChild_first.induct) simp_all

text \<open>One round of the loop of \<^verbatim>\<open>removeHighlights\<close>, and the rounds together.\<close>

lemma strip_rounds:
  "length (filter is_highlight ns) = k \<Longrightarrow>
     textContent (((\<lambda>children. normalize_children (replaceChild_first children)) ^^ k) ns) = textContent ns \<and>
     filter is_highlight (((\<lambda>children. normalize_children (replaceChild_first children)) ^^ k) ns) = []"
proof (induction k arbitrary: ns)
  case 0
  then show ?case by simp
next
  case (Suc k)
  let ?round = "\<lambda>children. normalize_children (replaceChild_first children)"
  have "length (filter is_highlight (?round ns)) = k"
    using Suc.prems by (simp add: normalize_children_def highlights_merge_text highlights_replaceChild_first)
  from Suc.IH [OF this] have "textContent ((?round ^^ k) (?round ns)) = textContent (?round ns)"
    and "filter is_highlight ((?round ^^ k) (?round ns)) = []"
    by simp_all
  moreover have "textContent (?round ns) = textContent ns"
    by (simp add: normalize_children_def textContent_merge_text textContent_replaceChild_first)
  ultimately show ?case
    unfolding funpow_Suc_right comp_def by simp
qed

lemma strip_highlights_text: "textContent (strip_highlights ns) = textContent ns"
  using strip_rounds [OF refl, of ns] by (simp add: strip_highlights_def)

lemma strip_highlights_none: "filter is_highlight (strip_highlights ns) = []"
  using strip_rounds [OF refl, of ns] by (simp add: strip_highlights_def)

lemma strip_highlights_some:
  assumes "filter is_highlight ns \<noteq> []"
  shows "strip_highlights ns = flush (textContent ns)"
proof -
  let ?round = "\<lambda>children. normalize_children (replaceChild_first children)"
  obtain k where k: "length (filter is_highlight ns) = Suc k"
    using assms by (cases "filter is_highlight ns") auto
  let ?before = "(?round ^^ k) ns"
  have "strip_highlights ns = ?round ?before"
    by (simp add: strip_highlights_def k)
  also have "\<dots> = merge_text [] (replaceChild_first ?before)"
    by (simp add: normalize_children_def)
  also have "filter is_highlight (merge_text [] (replaceChild_first ?before)) = []"
    using strip_highlights_none [of ns] by (simp add: strip_highlights_def k normalize_children_def)
  then have "filter is_highlight (replaceChild_first ?before) = []"
    by (metis highlights_merge_text length_0_conv)
  then have "merge_text [] (replaceChild_first ?before) = flush (textContent (replaceChild_first ?before))"
    using merge_text_no_highlight [of "replaceChild_first ?before" "[]"] by simp
  also have "textContent (replaceChild_first ?before) = textContent ns"
    using strip_highlights_text [of ns]
    by (simp add: strip_highlights_def k normalize_children_def textContent_merge_text)
  finally show ?thesis .
qed

lemma strip_highlights_flush: "strip_highlights (flush s) = flush s"
  by (simp add: strip_highlights_def flush_def)

lemma strip_highlights_build:
  "strip_highlights (build [] ts) = flush (concat (map token_text ts))"
proof (cases "list_ex is_span ts")
  case False
  then show ?thesis
    by (simp add: build_no_span strip_highlights_flush)
next
  case True
  then have "filter is_span ts \<noteq> []"
    by (simp add: list_ex_iff filter_empty_conv)
  then have "filter is_highlight (build [] ts) \<noteq> []"
    using highlights_build [of "[]" ts] by (metis length_0_conv)
  from strip_highlights_some [OF this] show ?thesis
    by (simp add: textContent_build)
qed

subsection \<open>Highlight, then remove\<close>

text \<open>
  For an element whose text has plain units only and a term without syntax characters:
  \<^verbatim>\<open>highlightText\<close> runs to its end and keeps the text, and \<^verbatim>\<open>removeHighlights\<close> afterwards
  leaves the one text node of that text (no node for the empty text).
\<close>

lemma highlightText_round_trip:
  assumes "list_all plain_unit (textContent element)"
    and "\<not> list_ex other_syntax_unit searchTerm" and "\<not> list_ex paren_unit searchTerm"
  shows "\<exists>children. highlightText element searchTerm = Completed children \<and>
           textContent children = textContent element \<and>
           strip_highlights children = flush (textContent element)"
proof -
  from tokenize_replace_gi [OF assms(1), of searchTerm] obtain ts
    where ts: "tokenize (replace_gi searchTerm (textContent element)) = Some ts"
      and spelled: "concat (map token_text ts) = textContent element"
    by blast
  have "highlightText element searchTerm = Completed (build [] ts)"
    unfolding highlightText_def RegExp_gi_literal [OF assms(2,3)]
    by (simp add: innerHTML_set_def ts del: replace_gi.simps)
  with spelled show ?thesis
    by (simp add: textContent_build strip_highlights_build)
qed


lemma removeHighlights_fields:
  "display (removeHighlights e) = display e"
  "opacity (removeHighlights e) = opacity e"
  "hide_timers (removeHighlights e) = hide_timers e"
  "entry (removeHighlights e) = entry e"
  "inside (removeHighlights e) = inside e"
  "textContent (h3 (removeHighlights e)) = textContent (h3 e)"
  "textContent (para (removeHighlights e)) = textContent (para e)"
  by (simp_all add: removeHighlights_def strip_highlights_text)

lemma plain_event_removeHighlights: "plain_event (removeHighlights e) = plain_event e"
  by (simp add: plain_event_def removeHighlights_fields)

lemma highlightSearchTerm_fields:
  assumes "outcome (highlightSearchTerm e t) = Some e'"
  shows "display e' = display e" and "opacity e' = opacity e" and "hide_timers e' = hide_timers e"
    and "entry e' = entry e" and "inside e' = inside e"
  using assms
  by (auto simp: highlightSearchTerm_def Let_def removeHighlights_fields split: run.splits)

text \<open>\<^verbatim>\<open>highlightSearchTerm\<close> on a plain event with a literal term, and \<^verbatim>\<open>removeHighlights\<close> after it.\<close>

lemma highlightSearchTerm_round_trip:
  assumes "plain_event e" and "literal_term t"
  shows "\<exists>e'. highlightSearchTerm e t = Completed e' \<and> plain_event e' \<and>
              textContent (h3 e') = textContent (h3 e) \<and>
              textContent (para e') = textContent (para e) \<and>
              h3 (removeHighlights e') = flush (textContent (h3 e)) \<and>
              para (removeHighlights e') = flush (textContent (para e))"
proof -
  let ?e = "removeHighlights e"
  from assms(2) have t: "\<not> list_ex other_syntax_unit t" "\<not> list_ex paren_unit t"
    by (simp_all add: literal_term_def)
  from assms(1) have "list_all plain_unit (textContent (h3 ?e))"
    and "list_all plain_unit (textContent (para ?e))"
    by (simp_all add: plain_event_def removeHighlights_fields)
  from highlightText_round_trip [OF this(1) t] highlightText_round_trip [OF this(2) t]
  obtain title description
    where title: "highlightText (h3 ?e) t = Completed title"
      "textContent title = textContent (h3 ?e)" "strip_highlights title = flush (textContent (h3 ?e))"
    and description: "highlightText (para ?e) t = Completed description"
      "textContent description = textContent (para ?e)"
      "strip_highlights description = flush (textContent (para ?e))"
    by blast
  have "highlightSearchTerm e t = Completed (?e\<lparr>h3 := title, para := description\<rparr>)"
    by (simp add: highlightSearchTerm_def Let_def title(1) description(1))
  moreover have "plain_event (?e\<lparr>h3 := title, para := description\<rparr>)"
    using assms(1) by (simp add: plain_event_def title(2) description(2) removeHighlights_fields)
  ultimately show ?thesis
    using title description
    by (simp add: removeHighlights_def removeHighlights_fields strip_highlights_text)
qed

section \<open>The recomputation pass\<close>

subsection \<open>One node\<close>

lemma filter_event_marked:
  assumes "outcome (filter_event this e) = Some e'"
  shows "marked this e e'"
proof (cases "matchesSearch this e \<and> matchesFilter this e")
  case False
  with assms have "e' = hideEvent e"
    by (auto simp: filter_event_def)
  with False show ?thesis
    by (simp add: marked_def hideEvent_def)
next
  case True
  show ?thesis
  proof (cases "currentSearchTerm this = []")
    case True
    with \<open>matchesSearch this e \<and> matchesFilter this e\<close> assms
    have "e' = removeHighlights (showEvent e)"
      by (simp add: filter_event_def)
    with \<open>matchesSearch this e \<and> matchesFilter this e\<close> show ?thesis
      by (simp add: marked_def removeHighlights_fields showEvent_def)
  next
    case False
    with True assms
    have "outcome (highlightSearchTerm (showEvent e) (currentSearchTerm this)) = Some e'"
      by (simp add: filter_event_def)
    from highlightSearchTerm_fields [OF this] True show ?thesis
      by (simp add: marked_def showEvent_def)
  qed
qed

lemma filter_event_empty_term:
  "currentSearchTerm this = [] \<Longrightarrow> \<exists>e'. filter_event this e = Completed e'"
  by (simp add: filter_event_def)

lemma filter_event_literal_term:
  assumes "literal_term (currentSearchTerm this)" and "plain_event e"
  shows "\<exists>e'. filter_event this e = Completed e' \<and> plain_event e'"
proof (cases "matchesSearch this e \<and> matchesFilter this e")
  case False
  then have "filter_event this e = Completed (hideEvent e)"
    by (auto simp: filter_event_def)
  moreover have "plain_event (hideEvent e)"
    using assms(2) by (simp add: plain_event_def hideEvent_def)
  ultimately show ?thesis by simp
next
  case True
  have shown: "plain_event (showEvent e)"
    using assms(2) by (simp add: plain_event_def showEvent_def)
  show ?thesis
  proof (cases "currentSearchTerm this = []")
    case empty: True
    with True have "filter_event this e = Completed (removeHighlights (showEvent e))"
      by (simp add: filter_event_def)
    with shown show ?thesis
      by (simp add: plain_event_removeHighlights)
  next
    case False
    from highlightSearchTerm_round_trip [OF shown assms(1)] obtain e'
      where "highlightSearchTerm (showEvent e) (currentSearchTerm this) = Completed e'"
        and "plain_event e'"
      by blast
    with True False show ?thesis
      by (simp add: filter_event_def)
  qed
qed

subsection \<open>The loop\<close>

lemma forEach_event_marked:
  "forEach_event this es = Completed es' \<Longrightarrow> list_all2 (marked this) es es'"
proof (induction es arbitrary: es')
  case Nil
  then show ?case by simp
next
  case (Cons e es)
  from Cons.prems obtain e' rest
    where e': "filter_event this e = Completed e'" and rest: "forEach_event this es = Completed rest"
      and es': "es' = e' # rest"
    by (auto split: run.splits)
  from e' have "marked this e e'"
    by (intro filter_event_marked) simp
  with Cons.IH [OF rest] es' show ?case
    by simp
qed

lemma forEach_event_completes:
  "list_all (\<lambda>e. \<exists>e'. filter_event this e = Completed e') es
     \<Longrightarrow> \<exists>es'. forEach_event this es = Completed es'"
  by (induction es) auto

lemma forEach_event_empty_term:
  "currentSearchTerm this = [] \<Longrightarrow> \<exists>es'. forEach_event this es = Completed es'"
  by (rule forEach_event_completes) (simp add: list_all_iff filter_event_empty_term)

lemma forEach_event_literal_term:
  assumes "literal_term (currentSearchTerm this)" and "list_all plain_event es"
  shows "\<exists>es'. forEach_event this es = Completed es' \<and> list_all plain_event es'"
  using assms(2)
proof (induction es)
  case Nil
  then show ?case by simp
next
  case (Cons e es)
  then obtain rest where rest: "forEach_event this es = Completed rest" "list_all plain_event rest"
    by auto
  from filter_event_literal_term [OF assms(1), of e] Cons.prems obtain e'
    where "filter_event this e = Completed e'" "plain_event e'"
    by auto
  with rest show ?case by simp
qed

subsection \<open>The timeouts\<close>

lemma hide_timeout_twice: "hide_timeout (hide_timeout e) = hide_timeout e"
  by (simp add: hide_timeout_def)

lemma hide_timeout_funpow: "(hide_timeout ^^ n) e = (if n = 0 then e else hide_timeout e)"
  by (induction n) (simp_all add: hide_timeout_twice)

lemma hide_timers_fire:
  assumes "marked this e e'"
  shows "settled this e (fire_hide_timers e')"
  using assms
  by (auto simp: marked_def settled_def fire_hide_timers_def hide_timeout_funpow hide_timeout_def)

lemma visible_after_fire:
  "(display (fire_hide_timers e) \<noteq> ''none'' \<and> opacity (fire_hide_timers e) \<noteq> ''0'')
     = (display e \<noteq> ''none'' \<and> opacity e \<noteq> ''0'')"
  "inside (fire_hide_timers e) = inside e"
  by (auto simp: fire_hide_timers_def hide_timeout_funpow hide_timeout_def)

lemma plain_event_fire: "plain_event (fire_hide_timers e) = plain_event e"
  by (simp add: plain_event_def fire_hide_timers_def hide_timeout_funpow hide_timeout_def)

lemma visibleEvents_hide_timeouts:
  "(visibleEvents (hide_timeouts s) i = []) = (visibleEvents s i = [])"
proof -
  have "visibleEvents (hide_timeouts s) i = map fire_hide_timers (visibleEvents s i)"
    unfolding visibleEvents_def hide_timeouts_def
    by (simp add: filter_map comp_def visible_after_fire)
  then show ?thesis by simp
qed

subsection \<open>A pass that runs to its end\<close>

text \<open>
  If the frame runs to its end then, once its timeouts have fired, every event that
  matches both predicates is displayed and opaque and every other event is faded and
  taken out of the layout; and every section is displayed exactly when one of its events
  is displayed and not transparent.
\<close>

lemma pass_completed:
  assumes "pass this = Completed s"
  shows "list_all2 (settled this) (events this) (events s)"
    and "timelineSections s =
           map (\<lambda>section. if visibleEvents s section = [] then ''none'' else ''block'')
             [0 ..< length (timelineSections this)]"
proof -
  from assms obtain es where es: "forEach_event this (events this) = Completed es"
    and s: "s = settle (this\<lparr>events := es, frames_pending := frames_pending this - 1,
                             section_timers := Suc (section_timers this)\<rparr>)"
    by (auto simp: pass_def applyAllFilters_frame_def split: run.splits)
  let ?f = "this\<lparr>events := es, frames_pending := frames_pending this - 1,
                  section_timers := Suc (section_timers this)\<rparr>"
  let ?u = "(updateSectionVisibility ?f)\<lparr>section_timers := 0\<rparr>"
  have settle: "s = hide_timeouts ?u"
    by (simp add: s settle_def section_timeouts_def)
  from forEach_event_marked [OF es] have "list_all2 (marked this) (events this) es" .
  then have "list_all2 (settled this) (events this) (map fire_hide_timers es)"
    by (simp add: list_all2_map2 list_all2_mono [OF _ hide_timers_fire])
  moreover have "events s = map fire_hide_timers es"
    unfolding settle hide_timeouts_def by (simp add: updateSectionVisibility_def)
  ultimately show "list_all2 (settled this) (events this) (events s)"
    by simp
  have same: "visibleEvents ?u i = visibleEvents ?f i" for i
    by (simp add: visibleEvents_def updateSectionVisibility_def)
  have "timelineSections s = timelineSections ?u"
    by (simp add: settle hide_timeouts_def)
  also have "\<dots> = map (\<lambda>section. if visibleEvents ?f section = [] then ''none'' else ''block'')
                      [0 ..< length (timelineSections this)]"
    by (simp add: updateSectionVisibility_def)
  also have "\<dots> = map (\<lambda>section. if visibleEvents s section = [] then ''none'' else ''block'')
                      [0 ..< length (timelineSections this)]"
    unfolding settle visibleEvents_hide_timeouts same by (rule refl)
  finally show "timelineSections s =
           map (\<lambda>section. if visibleEvents s section = [] then ''none'' else ''block'')
             [0 ..< length (timelineSections this)]" .
qed

lemma pass_empty_term:
  "currentSearchTerm this = [] \<Longrightarrow> \<exists>s. pass this = Completed s"
  using forEach_event_empty_term [of this "events this"]
  by (auto simp: pass_def applyAllFilters_frame_def)

lemma pass_literal_term:
  assumes "literal_term (currentSearchTerm this)" and "list_all plain_event (events this)"
  shows "\<exists>s. pass this = Completed s \<and> list_all plain_event (events s)"
proof -
  from forEach_event_literal_term [OF assms] obtain es
    where es: "forEach_event this (events this) = Completed es" and plain: "list_all plain_event es"
    by blast
  let ?f = "this\<lparr>events := es, frames_pending := frames_pending this - 1,
                  section_timers := Suc (section_timers this)\<rparr>"
  have "pass this = Completed (settle ?f)"
    by (simp add: pass_def applyAllFilters_frame_def es)
  moreover have "list_all plain_event (events (settle ?f))"
    using plain
    by (simp add: settle_def section_timeouts_def hide_timeouts_def updateSectionVisibility_def
          list_all_iff plain_event_fire)
  ultimately show ?thesis by blast
qed


text \<open>
  On the demo page the term \<^verbatim>\<open>SEED\<close> is such an input: the one event that contains it is
  shown with the match wrapped, the others and their sections are hidden; deleting the term
  brings every event and section back with its title as it was.
\<close>

lemma search_seed_on_demo:
  "literal_term ''SEED'' \<and> list_all plain_event (events demo) \<and>
   (case search_for ''SEED'' demo of
      Completed s \<Rightarrow>
        map (\<lambda>e. (display e, opacity e, h3 e)) (events s)
          = [(''none'', ''0'', [TextNode ''Privacy act signed'']),
             (''flex'', ''1'', [TextNode ''Acme raises a '', Highlight ''seed'', TextNode '' round (2019)'']),
             (''none'', ''0'', [TextNode ''Acme closes its series A''])] \<and>
        timelineSections s = [''none'', ''block'', ''none'']
    | Thrown err s \<Rightarrow> False
    | Unmodelled \<Rightarrow> False)"
  by code_simp

lemma search_seed_then_delete:
  "(case and_then (search_for ''SEED'' demo) (search_for []) of
      Completed s \<Rightarrow>
        map (\<lambda>e. (display e, opacity e, h3 e)) (events s)
          = map (\<lambda>e. (''flex'', ''1'', h3 e)) (events demo) \<and>
        timelineSections s = [''block'', ''block'', ''block'']
    | Thrown err s \<Rightarrow> False
    | Unmodelled \<Rightarrow> False)"
  by code_simp

subsection \<open>A pass that an exception ends\<close>

text \<open>
  A search term with an opening parenthesis and no other syntax character: for an event
  that matches, so that it is to be highlighted, \<^verbatim>\<open>new RegExp\<close> throws, and the loop leaves
  the events after it untouched.
\<close>

lemma highlightText_unclosed:
  assumes "\<not> list_ex other_syntax_unit t" and "\<not> list_ex (\<lambda>c. c = CHR '')'') t"
    and "CHR ''('' \<in> set t"
  shows "highlightText element t = Thrown SyntaxError element"
  unfolding highlightText_def RegExp_gi_unclosed [OF assms] by simp

lemma filter_event_unclosed:
  assumes "\<not> list_ex other_syntax_unit (currentSearchTerm this)"
    and "\<not> list_ex (\<lambda>c. c = CHR '')'') (currentSearchTerm this)"
    and "CHR ''('' \<in> set (currentSearchTerm this)"
    and "matchesSearch this e" and "matchesFilter this e"
  shows "filter_event this e = Thrown SyntaxError (removeHighlights (showEvent e))"
proof -
  from assms(3) have "currentSearchTerm this \<noteq> []"
    by auto
  with assms(4,5) show ?thesis
    by (simp add: filter_event_def highlightSearchTerm_def Let_def
          highlightText_unclosed [OF assms(1-3)])
qed

lemma forEach_event_stops:
  "filter_event this e = Thrown err e' \<Longrightarrow> forEach_event this (e # es) = Thrown err (e' # es)"
  by simp

text \<open>
  C1. The claim is that for every search term the pass shows an event exactly when both
  predicates hold and hides it otherwise. With the term \<^verbatim>\<open>(\<close> the first event is faded, the
  second matches and is shown, and \<^verbatim>\<open>highlightText\<close> then builds the pattern \<^verbatim>\<open>(()\<close>, for which
  \<^verbatim>\<open>new RegExp\<close> throws. The loop ends there: the third event does not contain the term, yet
  it stays displayed and opaque. (Lemma \<open>pass_completed\<close> has the claim for every pass
  that runs to its end, which lemmas \<open>pass_empty_term\<close> and \<open>pass_literal_term\<close> show to
  happen for the empty term and for terms without pattern syntax on plain text.)
\<close>

theorem unclosed_parenthesis_ends_loop:
  "(case typed_parenthesis of
      Thrown err s \<Rightarrow>
        err = SyntaxError \<and> currentSearchTerm s = ''('' \<and>
        map (\<lambda>e. (matchesSearch s e \<and> matchesFilter s e, display e, opacity e)) (events s)
          = [(False, ''none'', ''0''), (True, ''flex'', ''1''), (False, ''flex'', ''1'')]
    | Completed s \<Rightarrow> False
    | Unmodelled \<Rightarrow> False)"
  by code_simp

text \<open>
  C4. The claim is that once a pass has settled a section is displayed exactly when one
  of its events is visible. In the pass above the exception also skips the last statement
  of the frame, so no \<^verbatim>\<open>updateSectionVisibility\<close> is ever started: after all timeouts the
  first section has no visible event and is still displayed. (Lemma \<open>pass_completed\<close> has
  the claim for every pass that runs to its end.)
\<close>

theorem unclosed_parenthesis_skips_sections:
  "(case typed_parenthesis of
      Thrown err s \<Rightarrow>
        section_timers s = 0 \<and>
        map (\<lambda>section. length (visibleEvents s section)) [0, 1, 2] = [0, 1, 1] \<and>
        timelineSections s = [''block'', ''block'', ''block'']
    | Completed s \<Rightarrow> False
    | Unmodelled \<Rightarrow> False)"
  by code_simp

subsection \<open>Text that is markup\<close>

text \<open>
  C7. The claim is that highlighting and then clearing the term gives back the text of
  title and description unit for unit, for every text. \<^verbatim>\<open>highlightText\<close> assigns the text, with
  the spans added, to \<^verbatim>\<open>innerHTML\<close> without escaping it, so a text that reads as markup is
  changed: the title \<^verbatim>\<open>Use &amp; to write an ampersand\<close> comes back as
  \<^verbatim>\<open>Use & to write an ampersand\<close>. (Lemma \<open>highlightSearchTerm_round_trip\<close> has the claim for
  plain text and terms without pattern syntax.)
\<close>

theorem character_reference_not_restored:
  "map (\<lambda>e. textContent (h3 e)) (events entity_page) = [''Use &amp; to write an ampersand''] \<and>
   (case typed_and_deleted of
      Completed s \<Rightarrow>
        currentSearchTerm s = [] \<and>
        map h3 (events s) = [[TextNode ''Use & to write an ampersand'']]
    | Thrown err s \<Rightarrow> False
    | Unmodelled \<Rightarrow> False)"
  by code_simp

end
